theory Spec2Isabelle
  imports Complex_Main "HOL-Library.AList"
begin

section \<open>The TTL cache (cacheUtils: class MemoryCache)\<close>

text \<open>
  A cached value is a JavaScript value that may be \<^verbatim>\<open>null\<close>: it is modelled as
  \<open>'v option\<close>, with \<open>None\<close> for \<^verbatim>\<open>null\<close>. \<^verbatim>\<open>MemoryCache.get\<close> answers \<^verbatim>\<open>null\<close>
  both for a missing entry and for an entry whose data is \<^verbatim>\<open>null\<close>, and so does the
  model. Instants and durations are milliseconds, as \<open>int\<close>. Every read of
  \<^verbatim>\<open>Date.now()\<close> is an explicit argument of the operation that reads it.
\<close>

record 'v CacheEntry =
  data :: "'v option"
  timestamp :: int
  ttl :: int

text \<open>
  The store is a JavaScript \<^verbatim>\<open>Map\<close>, which keeps its keys in insertion order: an
  association list with distinct keys. \<^verbatim>\<open>Map.set\<close> replaces the value of a present key
  in place and appends a new key (\<open>AList.update\<close>), \<^verbatim>\<open>Map.delete\<close> removes the key
  (\<open>AList.delete\<close>), \<^verbatim>\<open>Map.get\<close> is \<open>map_of\<close>, \<^verbatim>\<open>Map.size\<close> is \<open>length\<close>.
\<close>

record 'v MemoryCache =
  cache :: "(string \<times> 'v CacheEntry) list"
  maxEntries :: int

definition new_MemoryCache :: "int \<Rightarrow> 'v MemoryCache" where
  "new_MemoryCache n = \<lparr>cache = [], maxEntries = n\<rparr>"

definition MemoryCache_get ::
  "'v MemoryCache \<Rightarrow> string \<Rightarrow> int \<Rightarrow> 'v option \<times> 'v MemoryCache" where
  "MemoryCache_get c key now =
     (case map_of (cache c) key of
        None \<Rightarrow> (None, c)
      | Some entry \<Rightarrow>
          if now - timestamp entry > ttl entry
          then (None, c\<lparr>cache := AList.delete key (cache c)\<rparr>)
          else (data entry, c))"

text \<open>
  \<^verbatim>\<open>Array.prototype.slice(0, n)\<close>: the first \<open>n\<close> elements, and for a negative \<open>n\<close>
  all but the last \<open>-n\<close>.
\<close>

definition slice0 :: "'a list \<Rightarrow> int \<Rightarrow> 'a list" where
  "slice0 xs n = (if n < 0 then take (nat (int (length xs) + n)) xs else take (nat n) xs)"

text \<open>
  \<^verbatim>\<open>cleanup\<close> reads the clock once. The sort is by timestamp and stable (as
  \<^verbatim>\<open>Array.prototype.sort\<close> is), and \<^verbatim>\<open>Math.floor(this.maxEntries * 0.2)\<close> is
  \<open>maxEntries div 5\<close> for an integer capacity.
\<close>

definition MemoryCache_cleanup :: "'v MemoryCache \<Rightarrow> int \<Rightarrow> 'v MemoryCache" where
  "MemoryCache_cleanup c now =
     (let expiredKeys = map fst (filter (\<lambda>(key, entry). now - timestamp entry > ttl entry) (cache c));
          m1 = fold AList.delete expiredKeys (cache c)
      in if int (length m1) \<ge> maxEntries c
         then (let entries = sort_key (\<lambda>(key, entry). timestamp entry) m1;
                   toRemove = slice0 entries (maxEntries c div 5)
               in c\<lparr>cache := fold AList.delete (map fst toRemove) m1\<rparr>)
         else c\<lparr>cache := m1\<rparr>)"

text \<open>
  \<^verbatim>\<open>set\<close> reads the clock in \<^verbatim>\<open>cleanup\<close> (\<open>nowc\<close>, when the cache is full) and again
  for the new entry's timestamp (\<open>now\<close>).
\<close>

definition MemoryCache_set ::
  "'v MemoryCache \<Rightarrow> string \<Rightarrow> 'v option \<Rightarrow> int \<Rightarrow> int \<Rightarrow> int \<Rightarrow> 'v MemoryCache" where
  "MemoryCache_set c key d ttlMs nowc now =
     (let c1 = (if int (length (cache c)) \<ge> maxEntries c then MemoryCache_cleanup c nowc else c)
      in c1\<lparr>cache := AList.update key \<lparr>data = d, timestamp = now, ttl = ttlMs\<rparr> (cache c1)\<rparr>)"

definition MemoryCache_delete :: "'v MemoryCache \<Rightarrow> string \<Rightarrow> bool \<times> 'v MemoryCache" where
  "MemoryCache_delete c key =
     (map_of (cache c) key \<noteq> None, c\<lparr>cache := AList.delete key (cache c)\<rparr>)"

definition MemoryCache_size :: "'v MemoryCache \<Rightarrow> nat" where
  "MemoryCache_size c = length (cache c)"

definition has_key :: "'v MemoryCache \<Rightarrow> string \<Rightarrow> bool" where
  "has_key c key = (map_of (cache c) key \<noteq> None)"

definition generateCacheKey :: "string \<Rightarrow> string \<Rightarrow> string \<Rightarrow> string" where
  "generateCacheKey prefix ip additionalParams =
     prefix @ '':'' @ ip @ (if additionalParams \<noteq> [] then '':'' @ additionalParams else [])"

definition CACHE_TTL_IPINFO_DATA :: int where
  "CACHE_TTL_IPINFO_DATA = 10 * 60 * 1000"

definition ipinfoCache :: "'v MemoryCache" where
  "ipinfoCache = new_MemoryCache 500"

subsection \<open>Errors and the outside world\<close>

text \<open>
  A JavaScript call either returns a value or throws (an awaited promise either resolves
  or rejects): \<open>js_error + 'a\<close>, with \<open>Inl\<close> for the thrown error. A function that
  talks to the outside (the fetch function given to \<^verbatim>\<open>cachedFetch\<close>, the HTTP call)
  takes the state of the outside world and returns the new one with its result.
\<close>

datatype js_error = NetworkError | SyntaxError | OtherError string

text \<open>
  \<^verbatim>\<open>cachedFetch\<close>: the clock is read by \<^verbatim>\<open>cache.get\<close> (\<open>tget\<close>) and, on a miss, by
  \<^verbatim>\<open>cache.set\<close> (\<open>tclean\<close> in its cleanup, \<open>tset\<close> for the timestamp). A cached
  \<^verbatim>\<open>null\<close> does not pass the test \<^verbatim>\<open>cached !== null\<close>. A rejected \<^verbatim>\<open>fetchFn\<close> leaves
  the function at the \<^verbatim>\<open>await\<close>, before anything is stored.
\<close>

definition cachedFetch ::
  "'v MemoryCache \<Rightarrow> string \<Rightarrow> ('w \<Rightarrow> (js_error + 'v option) \<times> 'w) \<Rightarrow> int
     \<Rightarrow> int \<Rightarrow> int \<Rightarrow> int \<Rightarrow> 'w \<Rightarrow> (js_error + 'v option) \<times> 'v MemoryCache \<times> 'w" where
  "cachedFetch c cacheKey fetchFn ttlMs tget tclean tset w =
     (case MemoryCache_get c cacheKey tget of
        (cached, c1) \<Rightarrow>
          if cached \<noteq> None then (Inr cached, c1, w)
          else (case fetchFn w of
                  (Inl err, w1) \<Rightarrow> (Inl err, c1, w1)
                | (Inr d, w1) \<Rightarrow> (Inr d, MemoryCache_set c1 cacheKey d ttlMs tclean tset, w1)))"

text \<open>
  To count the invocations of a fetch function, the world is paired with a counter that
  every invocation increments.
\<close>

definition counted :: "('w \<Rightarrow> 'a \<times> 'w) \<Rightarrow> nat \<times> 'w \<Rightarrow> 'a \<times> nat \<times> 'w" where
  "counted f = (\<lambda>(n, w). case f w of (a, w1) \<Rightarrow> (a, Suc n, w1))"

subsection \<open>The external lookup client (enhancedIPService: fetchIPInfoData)\<close>

text \<open>
  The outcome of the outbound \<^verbatim>\<open>fetch\<close>: it rejects, or it resolves with a response
  holding a status and a body. \<^verbatim>\<open>response.ok\<close> is true for a status in 200..299;
  \<^verbatim>\<open>response.json()\<close> throws on an unparsable body and otherwise returns the parsed
  value, which may be \<^verbatim>\<open>null\<close>.
\<close>

record 'v http_response =
  status :: int
  json :: "js_error + 'v option"

definition ok :: "'v http_response \<Rightarrow> bool" where
  "ok response = (200 \<le> status response \<and> status response \<le> 299)"

definition fetchUrl :: "string \<Rightarrow> string \<Rightarrow> string" where
  "fetchUrl ip ipinfoToken = ''https://ipinfo.io/'' @ ip @ ''/json?token='' @ ipinfoToken"

text \<open>The body of the \<^verbatim>\<open>try\<close> block: what it returns, or the error it throws.\<close>

definition fetchIPInfoData_try ::
  "(string \<Rightarrow> 'w \<Rightarrow> (js_error + 'v http_response) \<times> 'w) \<Rightarrow> string \<Rightarrow> string \<Rightarrow> 'w
     \<Rightarrow> (js_error + 'v option) \<times> 'w" where
  "fetchIPInfoData_try http ipinfoToken ip w =
     (case http (fetchUrl ip ipinfoToken) w of
        (Inl err, w1) \<Rightarrow> (Inl err, w1)
      | (Inr response, w1) \<Rightarrow>
          if \<not> ok response then (Inr None, w1)
          else (case json response of Inl err \<Rightarrow> (Inl err, w1) | Inr body \<Rightarrow> (Inr body, w1)))"

text \<open>The \<^verbatim>\<open>catch\<close> block turns every error of the body into \<^verbatim>\<open>null\<close>.\<close>

definition fetchIPInfoData ::
  "(string \<Rightarrow> 'w \<Rightarrow> (js_error + 'v http_response) \<times> 'w) \<Rightarrow> string \<Rightarrow> string \<Rightarrow> 'w
     \<Rightarrow> (js_error + 'v option) \<times> 'w" where
  "fetchIPInfoData http ipinfoToken ip w =
     (case fetchIPInfoData_try http ipinfoToken ip w of
        (Inl err, w1) \<Rightarrow> (Inr None, w1)
      | (Inr v, w1) \<Rightarrow> (Inr v, w1))"

definition fetchIPInfoDataCached ::
  "(string \<Rightarrow> 'w \<Rightarrow> (js_error + 'v http_response) \<times> 'w) \<Rightarrow> string \<Rightarrow> 'v MemoryCache \<Rightarrow> string
     \<Rightarrow> int \<Rightarrow> int \<Rightarrow> int \<Rightarrow> 'w \<Rightarrow> (js_error + 'v option) \<times> 'v MemoryCache \<times> 'w" where
  "fetchIPInfoDataCached http ipinfoToken c ip tget tclean tset w =
     cachedFetch c (generateCacheKey ''ipinfo'' ip []) (fetchIPInfoData http ipinfoToken ip)
       CACHE_TTL_IPINFO_DATA tget tclean tset w"

section \<open>Edge metadata and the external lookup result (types)\<close>

text \<open>
  Record fields are global names in Isabelle, so every field carries a short prefix for its
  record: \<open>cf_\<close> for \<^verbatim>\<open>CloudflareRequestData\<close>, \<open>bm_\<close> for its \<^verbatim>\<open>botManagement\<close>
  block, \<open>ii_\<close> for \<^verbatim>\<open>IPInfoResponse\<close>, \<open>asn_\<close>, \<open>co_\<close>, \<open>ca_\<close> and \<open>pr_\<close> for its
  \<^verbatim>\<open>asn\<close>, \<^verbatim>\<open>company\<close>, \<^verbatim>\<open>carrier\<close> and \<^verbatim>\<open>privacy\<close> blocks. After the prefix the name is
  the source's. An optional field (\<^verbatim>\<open>country?: string\<close>) is an \<open>option\<close>, \<open>None\<close> for
  \<^verbatim>\<open>undefined\<close>. The numbers of the edge metadata are integers. The flags of the
  \<^verbatim>\<open>privacy\<close> block are the booleans that the type declares; the code reads them for
  truthiness only, so an absent flag would behave as \<open>False\<close>.
\<close>

record BotManagement =
  bm_score :: "int option"
  bm_staticResource :: "bool option"
  bm_verifiedBot :: "bool option"

record CloudflareRequestData =
  cf_country :: "string option"
  cf_region :: "string option"
  cf_city :: "string option"
  cf_postalCode :: "string option"
  cf_timezone :: "string option"
  cf_latitude :: "string option"
  cf_longitude :: "string option"
  cf_continent :: "string option"
  cf_asn :: "int option"
  cf_asOrganization :: "string option"
  cf_colo :: "string option"
  cf_httpProtocol :: "string option"
  cf_tlsVersion :: "string option"
  cf_tlsCipher :: "string option"
  cf_botManagement :: "BotManagement option"
  cf_requestPriority :: "string option"
  cf_weight :: "int option"
  cf_edgeRequestKeepAliveStatus :: "int option"
  cf_clientAcceptEncoding :: "string option"
  cf_clientTcpRtt :: "int option"

record AsnBlock =
  asn_asn :: string
  asn_name :: string
  asn_domain :: string
  asn_route :: string
  asn_type :: string

record CompanyBlock =
  co_name :: string
  co_domain :: string
  co_type :: string

record CarrierBlock =
  ca_name :: string
  ca_mcc :: string
  ca_mnc :: string

record PrivacyBlock =
  pr_vpn :: bool
  pr_proxy :: bool
  pr_tor :: bool
  pr_relay :: bool
  pr_hosting :: bool
  pr_service :: string

record IPInfoResponse =
  ii_ip :: string
  ii_hostname :: "string option"
  ii_city :: "string option"
  ii_region :: "string option"
  ii_country :: "string option"
  ii_loc :: "string option"
  ii_postal :: "string option"
  ii_timezone :: "string option"
  ii_org :: "string option"
  ii_asn :: "AsnBlock option"
  ii_company :: "CompanyBlock option"
  ii_carrier :: "CarrierBlock option"
  ii_privacy :: "PrivacyBlock option"

section \<open>JavaScript values\<close>

text \<open>
  A string is truthy when it is defined and not empty; a number when it is neither
  \<open>0\<close> nor \<^verbatim>\<open>NaN\<close>. \<open>a || b\<close> is \<open>a\<close> when \<open>a\<close> is truthy and \<open>b\<close> otherwise.
\<close>

datatype js_number = NaN | Num real

definition truthy :: "string option \<Rightarrow> bool" where
  "truthy x = (case x of None \<Rightarrow> False | Some s \<Rightarrow> s \<noteq> [])"

definition truthy_int :: "int option \<Rightarrow> bool" where
  "truthy_int x = (case x of None \<Rightarrow> False | Some n \<Rightarrow> n \<noteq> 0)"

definition truthy_num :: "js_number \<Rightarrow> bool" where
  "truthy_num x = (case x of NaN \<Rightarrow> False | Num r \<Rightarrow> r \<noteq> 0)"

definition js_or :: "string option \<Rightarrow> string option \<Rightarrow> string option" where
  "js_or a b = (if truthy a then a else b)"

text \<open>\<open>a || d\<close> for a string literal \<open>d\<close>: the result is a string.\<close>

definition or_else :: "string option \<Rightarrow> string \<Rightarrow> string" where
  "or_else a d = (case a of None \<Rightarrow> d | Some s \<Rightarrow> if s \<noteq> [] then s else d)"

text \<open>\<^verbatim>\<open>ipinfoData?.field\<close>: \<^verbatim>\<open>undefined\<close> when \<^verbatim>\<open>ipinfoData\<close> is \<^verbatim>\<open>null\<close>.\<close>

definition opt_chain :: "'a option \<Rightarrow> ('a \<Rightarrow> 'b option) \<Rightarrow> 'b option" where
  "opt_chain x f = (case x of None \<Rightarrow> None | Some v \<Rightarrow> f v)"

text \<open>\<^verbatim>\<open>ipinfoData?.privacy?.flag || false\<close>.\<close>

definition privacy_flag :: "IPInfoResponse option \<Rightarrow> (PrivacyBlock \<Rightarrow> bool) \<Rightarrow> bool" where
  "privacy_flag ipinfoData flag =
     (case opt_chain ipinfoData ii_privacy of None \<Rightarrow> False | Some p \<Rightarrow> flag p)"

text \<open>\<^verbatim>\<open>s.split(',')\<close>: the pieces between the separators, at least one piece.\<close>

fun split_on :: "char \<Rightarrow> string \<Rightarrow> string list" where
  "split_on sep [] = [[]]"
| "split_on sep (c # cs) =
     (if c = sep then [] # split_on sep cs
      else (case split_on sep cs of [] \<Rightarrow> [[c]] | p # ps \<Rightarrow> (c # p) # ps))"

text \<open>\<^verbatim>\<open>s.replace(pat, rep)\<close> with a string pattern: the first occurrence only.\<close>

fun replace_first :: "string \<Rightarrow> string \<Rightarrow> string \<Rightarrow> string" where
  "replace_first pat rep [] = (if pat = [] then rep else [])"
| "replace_first pat rep (c # cs) =
     (if take (length pat) (c # cs) = pat then rep @ drop (length pat) (c # cs)
      else c # replace_first pat rep cs)"

section \<open>cloudflareUtils\<close>

text \<open>
  The two tables are plain objects, so a lookup also finds the members that every object
  inherits from \<^verbatim>\<open>Object.prototype\<close>: for a code such as \<^verbatim>\<open>constructor\<close> the expression
  \<^verbatim>\<open>continents[code]\<close> is that member (a function, or the prototype object for
  \<^verbatim>\<open>__proto__\<close>), which is truthy, and the function returns it in place of a text.
\<close>

datatype table_value = Text string | Inherited string

definition object_prototype_members :: "string list" where
  "object_prototype_members =
     [''constructor'', ''__defineGetter__'', ''__defineSetter__'', ''hasOwnProperty'',
      ''__lookupGetter__'', ''__lookupSetter__'', ''isPrototypeOf'', ''propertyIsEnumerable'',
      ''toString'', ''valueOf'', ''__proto__'', ''toLocaleString'']"

definition getContinentName :: "string \<Rightarrow> table_value" where
  "getContinentName code =
     (case map_of [(''AF'', ''Africa''), (''AN'', ''Antarctica''), (''AS'', ''Asia''),
                   (''EU'', ''Europe''), (''NA'', ''North America''), (''OC'', ''Oceania''),
                   (''SA'', ''South America'')] code of
        Some name \<Rightarrow> Text name
      | None \<Rightarrow> if code \<in> set object_prototype_members then Inherited code else Text code)"

text \<open>The name of GRU holds a non-ASCII letter, written here as its two UTF-8 bytes.\<close>

definition getDatacenterLocation :: "string \<Rightarrow> table_value" where
  "getDatacenterLocation colo =
     (case map_of [(''ATL'', ''Atlanta, US''), (''DFW'', ''Dallas, US''), (''EWR'', ''Newark, US''),
                   (''IAD'', ''Ashburn, US''), (''LAX'', ''Los Angeles, US''), (''MIA'', ''Miami, US''),
                   (''ORD'', ''Chicago, US''), (''SJC'', ''San Jose, US''), (''SEA'', ''Seattle, US''),
                   (''LHR'', ''London, UK''), (''CDG'', ''Paris, France''),
                   (''FRA'', ''Frankfurt, Germany''), (''AMS'', ''Amsterdam, Netherlands''),
                   (''SIN'', ''Singapore''), (''NRT'', ''Tokyo, Japan''), (''HKG'', ''Hong Kong''),
                   (''SYD'', ''Sydney, Australia''),
                   (''GRU'', ''S'' @ [CHR 0xC3, CHR 0xA3] @ ''o Paulo, Brazil''),
                   (''YYZ'', ''Toronto, Canada'')] colo of
        Some name \<Rightarrow> Text name
      | None \<Rightarrow> if colo \<in> set object_prototype_members then Inherited colo
                else Text (colo @ '' Datacenter''))"

text \<open>
  \<^verbatim>\<open>assessConnectionQuality\<close>. The round-trip time is tested for truthiness before it is
  compared (\<^verbatim>\<open>cfData.clientTcpRtt && cfData.clientTcpRtt < 50\<close>), so a time of \<open>0\<close>
  earns nothing.
\<close>

definition connectionScore :: "CloudflareRequestData \<Rightarrow> int" where
  "connectionScore cfData =
     (if cf_httpProtocol cfData = Some ''HTTP/3'' then 3
      else if cf_httpProtocol cfData = Some ''HTTP/2'' then 2
      else if cf_httpProtocol cfData = Some ''HTTP/1.1'' then 1 else 0)
   + (if cf_tlsVersion cfData = Some ''TLSv1.3'' then 2
      else if cf_tlsVersion cfData = Some ''TLSv1.2'' then 1 else 0)
   + (case cf_clientTcpRtt cfData of
        None \<Rightarrow> 0
      | Some rtt \<Rightarrow>
          if rtt \<noteq> 0 \<and> rtt < 50 then 2
          else if rtt \<noteq> 0 \<and> rtt < 100 then 1 else 0)"

definition assessConnectionQuality :: "CloudflareRequestData \<Rightarrow> string" where
  "assessConnectionQuality cfData =
     (let score = connectionScore cfData
      in if score \<ge> 6 then ''excellent''
         else if score \<ge> 4 then ''good''
         else if score \<ge> 2 then ''fair''
         else ''poor'')"

text \<open>
  \<^verbatim>\<open>assessThreatLevel\<close>. The bot score is tested with \<^verbatim>\<open>!== undefined\<close>, so a score of
  \<open>0\<close> counts.
\<close>

definition riskScore :: "CloudflareRequestData \<Rightarrow> PrivacyBlock option \<Rightarrow> int" where
  "riskScore cfData ipinfoPrivacy =
     (case opt_chain (cf_botManagement cfData) bm_score of
        None \<Rightarrow> 0
      | Some s \<Rightarrow> if s < 30 then 3 else if s < 50 then 2 else if s < 80 then 1 else 0)
   + (case ipinfoPrivacy of
        None \<Rightarrow> 0
      | Some p \<Rightarrow> (if pr_tor p then 3 else 0) + (if pr_vpn p then 2 else 0)
                 + (if pr_proxy p then 2 else 0) + (if pr_hosting p then 1 else 0))"

definition assessThreatLevel :: "CloudflareRequestData \<Rightarrow> PrivacyBlock option \<Rightarrow> string" where
  "assessThreatLevel cfData ipinfoPrivacy =
     (let score = riskScore cfData ipinfoPrivacy
      in if score \<ge> 5 then ''high''
         else if score \<ge> 3 then ''medium''
         else ''low'')"

text \<open>
  \<^verbatim>\<open>generateRequestId\<close> reads the clock and the random number generator: \<open>now\<close> is the
  decimal text of \<^verbatim>\<open>Date.now()\<close> and \<open>rnd\<close> the text of
  \<^verbatim>\<open>Math.random().toString(36)\<close>, of which \<^verbatim>\<open>substr(2, 9)\<close> keeps nine characters after
  the first two.
\<close>

definition generateRequestId :: "string \<Rightarrow> string \<Rightarrow> string" where
  "generateRequestId now rnd = ''req_'' @ now @ ''_'' @ take 9 (drop 2 rnd)"

definition calculateProcessingTime :: "int \<Rightarrow> int \<Rightarrow> int" where
  "calculateProcessingTime now startTime = now - startTime"

section \<open>The reconciliation engine (enhancedIPService)\<close>

text \<open>
  The records the service returns, with the prefixes \<open>loc_\<close>, \<open>net_\<close>, \<open>sec_\<close>,
  \<open>conn_\<close>, \<open>src_\<close> for the sections of the combined record, \<open>r_\<close> for the combined
  record itself, and \<open>geo_\<close>, \<open>sv_\<close>, \<open>nv_\<close> for the geolocation, security and network
  views. The classifications are the string literals of the source. The \<open>timestamp\<close> is
  kept as the instant whose ISO text the source emits.
\<close>

record Coordinates =
  latitude :: js_number
  longitude :: js_number

record Location =
  loc_country :: string
  loc_countryCode :: string
  loc_region :: string
  loc_city :: string
  loc_postalCode :: "string option"
  loc_timezone :: string
  loc_coordinates :: Coordinates
  loc_continent :: table_value
  loc_accuracy :: string
  loc_sources :: "string list"

record Network =
  net_asn :: js_number
  net_organization :: string
  net_isp :: "string option"
  net_domain :: "string option"
  net_type :: string
  net_route :: "string option"

record Security =
  sec_vpn :: bool
  sec_proxy :: bool
  sec_tor :: bool
  sec_hosting :: bool
  sec_threatLevel :: string
  sec_botScore :: "int option"
  sec_verifiedBot :: "bool option"
  sec_malicious :: bool

record Connection =
  conn_datacenter :: table_value
  conn_httpProtocol :: string
  conn_tlsVersion :: "string option"
  conn_tlsCipher :: "string option"
  conn_tcpRtt :: "int option"
  conn_edgeLocation :: string

record Sources =
  src_ipinfo :: bool
  src_cloudflare :: bool
  src_computed :: "string list"

record EnhancedIPResponse =
  r_requestId :: string
  r_timestamp :: int
  r_processingTime :: int
  r_ip :: string
  r_ipVersion :: nat
  r_location :: Location
  r_network :: Network
  r_security :: Security
  r_connection :: Connection
  r_company :: "CompanyBlock option"
  r_carrier :: "CarrierBlock option"
  r_sources :: Sources

record GeolocationResponse =
  geo_ip :: string
  geo_country :: string
  geo_countryCode :: string
  geo_region :: string
  geo_city :: string
  geo_postalCode :: "string option"
  geo_timezone :: string
  geo_coordinates :: Coordinates
  geo_continent :: table_value
  geo_accuracy :: string
  geo_sources :: "string list"

record SecurityResponse =
  sv_ip :: string
  sv_vpn :: bool
  sv_proxy :: bool
  sv_tor :: bool
  sv_hosting :: bool
  sv_threatLevel :: string
  sv_botScore :: "int option"
  sv_verifiedBot :: "bool option"
  sv_malicious :: bool
  sv_riskFactors :: "string list"

record NetworkResponse =
  nv_ip :: string
  nv_asn :: js_number
  nv_organization :: string
  nv_isp :: "string option"
  nv_type :: string
  nv_route :: "string option"
  nv_datacenter :: table_value
  nv_httpProtocol :: string
  nv_tlsVersion :: "string option"
  nv_connectionQuality :: string

text \<open>
  \<^verbatim>\<open>extractCoordinates\<close>. \<^verbatim>\<open>parseFloat\<close> is a built-in of the language and a parameter
  here. \<^verbatim>\<open>const [lat, lon] = loc.split(',')\<close> leaves \<^verbatim>\<open>lon\<close> undefined when the text has
  no comma, and \<^verbatim>\<open>parseFloat(undefined)\<close> is \<^verbatim>\<open>NaN\<close>.
\<close>

definition extractCoordinates ::
  "(string \<Rightarrow> js_number) \<Rightarrow> CloudflareRequestData \<Rightarrow> IPInfoResponse option \<Rightarrow> Coordinates" where
  "extractCoordinates parseFloat cfData ipinfoData =
     (if truthy (cf_latitude cfData) \<and> truthy (cf_longitude cfData)
      then \<lparr>latitude = parseFloat (or_else (cf_latitude cfData) []),
            longitude = parseFloat (or_else (cf_longitude cfData) [])\<rparr>
      else if truthy (opt_chain ipinfoData ii_loc)
      then (case split_on CHR '','' (or_else (opt_chain ipinfoData ii_loc) []) of
              lat # lon # rest \<Rightarrow> \<lparr>latitude = parseFloat lat, longitude = parseFloat lon\<rparr>
            | [lat] \<Rightarrow> \<lparr>latitude = parseFloat lat, longitude = NaN\<rparr>
            | [] \<Rightarrow> \<lparr>latitude = NaN, longitude = NaN\<rparr>)
      else \<lparr>latitude = Num 0, longitude = Num 0\<rparr>)"

text \<open>
  The \<^verbatim>\<open>asn\<close> of the network section and of the network view:
  \<^verbatim>\<open>cfData.asn || (ipinfoData?.asn ? parseInt(ipinfoData.asn.asn.replace('AS', '')) : 0)\<close>,
  with the built-in \<^verbatim>\<open>parseInt\<close> as a parameter.
\<close>

definition asnNumber ::
  "(string \<Rightarrow> js_number) \<Rightarrow> CloudflareRequestData \<Rightarrow> IPInfoResponse option \<Rightarrow> js_number" where
  "asnNumber parseInt cfData ipinfoData =
     (case cf_asn cfData of
        Some n \<Rightarrow> if n \<noteq> 0 then Num (of_int n)
                  else (case opt_chain ipinfoData ii_asn of
                          Some a \<Rightarrow> parseInt (replace_first ''AS'' [] (asn_asn a)) | None \<Rightarrow> Num 0)
      | None \<Rightarrow> (case opt_chain ipinfoData ii_asn of
                   Some a \<Rightarrow> parseInt (replace_first ''AS'' [] (asn_asn a)) | None \<Rightarrow> Num 0))"

text \<open>
  \<^verbatim>\<open>combineData\<close>. The clock is read twice, for the timestamp (\<open>now1\<close>) and for the
  processing time (\<open>now2\<close>).
\<close>

definition combineData_sources :: "CloudflareRequestData \<Rightarrow> IPInfoResponse option \<Rightarrow> string list" where
  "combineData_sources cfData ipinfoData =
     (if truthy (cf_country cfData) then [''cloudflare''] else [])
   @ (if ipinfoData \<noteq> None then [''ipinfo''] else [])"

definition combineData ::
  "(string \<Rightarrow> js_number) \<Rightarrow> (string \<Rightarrow> js_number) \<Rightarrow> string \<Rightarrow> nat \<Rightarrow> CloudflareRequestData
     \<Rightarrow> IPInfoResponse option \<Rightarrow> string \<Rightarrow> int \<Rightarrow> int \<Rightarrow> int \<Rightarrow> EnhancedIPResponse" where
  "combineData parseFloat parseInt ip ipVersion cfData ipinfoData requestId startTime now1 now2 =
     (let coordinates = extractCoordinates parseFloat cfData ipinfoData;
          sources = combineData_sources cfData ipinfoData;
          high = (length sources \<ge> 2 \<and> truthy_num (latitude coordinates)
                   \<and> truthy_num (longitude coordinates));
          locationAccuracy = (if high then ''high''
                              else if length sources \<ge> 1 then ''medium'' else ''low'');
          computedFields = (if high then [''location_accuracy''] else [])
      in \<lparr>r_requestId = requestId,
          r_timestamp = now1,
          r_processingTime = calculateProcessingTime now2 startTime,
          r_ip = ip,
          r_ipVersion = ipVersion,
          r_location = \<lparr>
            loc_country = or_else (js_or (cf_country cfData) (opt_chain ipinfoData ii_country)) [],
            loc_countryCode = or_else (cf_country cfData) [],
            loc_region = or_else (js_or (cf_region cfData) (opt_chain ipinfoData ii_region)) [],
            loc_city = or_else (js_or (cf_city cfData) (opt_chain ipinfoData ii_city)) [],
            loc_postalCode = js_or (cf_postalCode cfData) (opt_chain ipinfoData ii_postal),
            loc_timezone = or_else (js_or (cf_timezone cfData) (opt_chain ipinfoData ii_timezone)) [],
            loc_coordinates = coordinates,
            loc_continent = getContinentName (or_else (cf_continent cfData) []),
            loc_accuracy = locationAccuracy,
            loc_sources = sources\<rparr>,
          r_network = \<lparr>
            net_asn = asnNumber parseInt cfData ipinfoData,
            net_organization = or_else (js_or (cf_asOrganization cfData) (opt_chain ipinfoData ii_org)) [],
            net_isp = opt_chain ipinfoData ii_org,
            net_domain = map_option asn_domain (opt_chain ipinfoData ii_asn),
            net_type = or_else (map_option asn_type (opt_chain ipinfoData ii_asn)) ''unknown'',
            net_route = map_option asn_route (opt_chain ipinfoData ii_asn)\<rparr>,
          r_security = \<lparr>
            sec_vpn = privacy_flag ipinfoData pr_vpn,
            sec_proxy = privacy_flag ipinfoData pr_proxy,
            sec_tor = privacy_flag ipinfoData pr_tor,
            sec_hosting = privacy_flag ipinfoData pr_hosting,
            sec_threatLevel = assessThreatLevel cfData (opt_chain ipinfoData ii_privacy),
            sec_botScore = opt_chain (cf_botManagement cfData) bm_score,
            sec_verifiedBot = opt_chain (cf_botManagement cfData) bm_verifiedBot,
            sec_malicious = (assessThreatLevel cfData (opt_chain ipinfoData ii_privacy) = ''high'')\<rparr>,
          r_connection = \<lparr>
            conn_datacenter = getDatacenterLocation (or_else (cf_colo cfData) []),
            conn_httpProtocol = or_else (cf_httpProtocol cfData) ''unknown'',
            conn_tlsVersion = cf_tlsVersion cfData,
            conn_tlsCipher = cf_tlsCipher cfData,
            conn_tcpRtt = cf_clientTcpRtt cfData,
            conn_edgeLocation = or_else (cf_colo cfData) ''unknown''\<rparr>,
          r_company = opt_chain ipinfoData ii_company,
          r_carrier = opt_chain ipinfoData ii_carrier,
          r_sources = \<lparr>
            src_ipinfo = (ipinfoData \<noteq> None),
            src_cloudflare = truthy (js_or (cf_country cfData) (cf_colo cfData)),
            src_computed = computedFields\<rparr>\<rparr>)"

text \<open>
  The geolocation view. \<open>getGeolocation_result\<close> is the record \<^verbatim>\<open>result\<close> that
  \<^verbatim>\<open>getGeolocation\<close> builds from the edge metadata and the external result when its cache
  holds nothing for the address (lines 108 to 140 of the service); the endpoint itself,
  with its validation and its cache, is \<open>getGeolocation\<close> below.
\<close>

definition getGeolocation_sources :: "CloudflareRequestData \<Rightarrow> IPInfoResponse option \<Rightarrow> string list" where
  "getGeolocation_sources cfData ipinfoData =
     (if truthy (cf_country cfData) then [''cloudflare''] else [])
   @ (if truthy (opt_chain ipinfoData ii_country) then [''ipinfo''] else [])"

definition getGeolocation_result ::
  "(string \<Rightarrow> js_number) \<Rightarrow> string \<Rightarrow> CloudflareRequestData \<Rightarrow> IPInfoResponse option
     \<Rightarrow> GeolocationResponse" where
  "getGeolocation_result parseFloat ip cfData ipinfoData =
     (let sources = getGeolocation_sources cfData ipinfoData;
          accuracy = (if length sources \<ge> 2 \<and> truthy (cf_latitude cfData)
                          \<and> truthy (cf_longitude cfData) then ''high''
                      else if length sources \<ge> 1 then ''medium'' else ''low'');
          coordinates = extractCoordinates parseFloat cfData ipinfoData
      in \<lparr>geo_ip = ip,
          geo_country = or_else (js_or (cf_country cfData) (opt_chain ipinfoData ii_country)) [],
          geo_countryCode = or_else (cf_country cfData) [],
          geo_region = or_else (js_or (cf_region cfData) (opt_chain ipinfoData ii_region)) [],
          geo_city = or_else (js_or (cf_city cfData) (opt_chain ipinfoData ii_city)) [],
          geo_postalCode = js_or (cf_postalCode cfData) (opt_chain ipinfoData ii_postal),
          geo_timezone = or_else (js_or (cf_timezone cfData) (opt_chain ipinfoData ii_timezone)) [],
          geo_coordinates = coordinates,
          geo_continent = getContinentName (or_else (cf_continent cfData) []),
          geo_accuracy = accuracy,
          geo_sources = sources\<rparr>)"

text \<open>The security view: what \<^verbatim>\<open>getSecurityInfo\<close> computes from the two inputs.\<close>

definition getSecurityInfo ::
  "string \<Rightarrow> CloudflareRequestData \<Rightarrow> IPInfoResponse option \<Rightarrow> SecurityResponse" where
  "getSecurityInfo ip cfData ipinfoData =
     (let vpn = privacy_flag ipinfoData pr_vpn;
          proxy = privacy_flag ipinfoData pr_proxy;
          tor = privacy_flag ipinfoData pr_tor;
          hosting = privacy_flag ipinfoData pr_hosting;
          riskFactors =
              (if vpn then [''VPN usage detected''] else [])
            @ (if proxy then [''Proxy usage detected''] else [])
            @ (if tor then [''Tor network usage detected''] else [])
            @ (if hosting then [''Hosting/datacenter IP''] else [])
            @ (case opt_chain (cf_botManagement cfData) bm_score of
                 None \<Rightarrow> []
               | Some s \<Rightarrow> if s \<noteq> 0 \<and> s < 50 then [''Low bot management score''] else []);
          threatLevel = assessThreatLevel cfData (opt_chain ipinfoData ii_privacy);
          malicious = (threatLevel = ''high'' \<or> (tor \<and> proxy))
      in \<lparr>sv_ip = ip, sv_vpn = vpn, sv_proxy = proxy, sv_tor = tor, sv_hosting = hosting,
          sv_threatLevel = threatLevel,
          sv_botScore = opt_chain (cf_botManagement cfData) bm_score,
          sv_verifiedBot = opt_chain (cf_botManagement cfData) bm_verifiedBot,
          sv_malicious = malicious,
          sv_riskFactors = riskFactors\<rparr>)"

text \<open>The network view: what \<^verbatim>\<open>getNetworkInfo\<close> computes from the two inputs.\<close>

definition getNetworkInfo ::
  "(string \<Rightarrow> js_number) \<Rightarrow> string \<Rightarrow> CloudflareRequestData \<Rightarrow> IPInfoResponse option
     \<Rightarrow> NetworkResponse" where
  "getNetworkInfo parseInt ip cfData ipinfoData =
     \<lparr>nv_ip = ip,
      nv_asn = asnNumber parseInt cfData ipinfoData,
      nv_organization = or_else (js_or (cf_asOrganization cfData) (opt_chain ipinfoData ii_org)) [],
      nv_isp = opt_chain ipinfoData ii_org,
      nv_type = or_else (map_option asn_type (opt_chain ipinfoData ii_asn)) ''unknown'',
      nv_route = map_option asn_route (opt_chain ipinfoData ii_asn),
      nv_datacenter = getDatacenterLocation (or_else (cf_colo cfData) []),
      nv_httpProtocol = or_else (cf_httpProtocol cfData) ''unknown'',
      nv_tlsVersion = cf_tlsVersion cfData,
      nv_connectionQuality = assessConnectionQuality cfData\<rparr>"

subsection \<open>Example inputs\<close>

definition no_edge_data :: CloudflareRequestData where
  "no_edge_data = \<lparr>
     cf_country = None, cf_region = None, cf_city = None, cf_postalCode = None,
     cf_timezone = None, cf_latitude = None, cf_longitude = None, cf_continent = None,
     cf_asn = None, cf_asOrganization = None, cf_colo = None, cf_httpProtocol = None,
     cf_tlsVersion = None, cf_tlsCipher = None, cf_botManagement = None,
     cf_requestPriority = None, cf_weight = None, cf_edgeRequestKeepAliveStatus = None,
     cf_clientAcceptEncoding = None, cf_clientTcpRtt = None\<rparr>"

definition bare_lookup :: "string \<Rightarrow> IPInfoResponse" where
  "bare_lookup ip = \<lparr>
     ii_ip = ip, ii_hostname = None, ii_city = None, ii_region = None, ii_country = None,
     ii_loc = None, ii_postal = None, ii_timezone = None, ii_org = None, ii_asn = None,
     ii_company = None, ii_carrier = None, ii_privacy = None\<rparr>"

definition no_parse :: "string \<Rightarrow> js_number" where
  "no_parse s = NaN"

definition zero_rtt_edge :: CloudflareRequestData where
  "zero_rtt_edge = no_edge_data\<lparr>cf_httpProtocol := Some ''HTTP/2'',
     cf_tlsVersion := Some ''TLSv1.3'', cf_clientTcpRtt := Some 0\<rparr>"

definition colo_only_edge :: CloudflareRequestData where
  "colo_only_edge = no_edge_data\<lparr>cf_colo := Some ''LAX''\<rparr>"

definition country_only_edge :: CloudflareRequestData where
  "country_only_edge = no_edge_data\<lparr>cf_country := Some ''US''\<rparr>"

text \<open>A cache of capacity 4 that holds four entries, none of them expired before instant 1000.\<close>

definition small_full_cache :: "nat MemoryCache" where
  "small_full_cache = \<lparr>cache =
       [(''a'', \<lparr>data = Some 1, timestamp = 0, ttl = 1000\<rparr>),
        (''b'', \<lparr>data = Some 2, timestamp = 1, ttl = 1000\<rparr>),
        (''c'', \<lparr>data = Some 3, timestamp = 2, ttl = 1000\<rparr>),
        (''d'', \<lparr>data = Some 4, timestamp = 3, ttl = 1000\<rparr>)],
     maxEntries = 4\<rparr>"

text \<open>
  Two upstreams, whose world is the number of lookups served so far: one always answers
  42, the other fails on its first lookup (the client turns that into \<^verbatim>\<open>null\<close>) and
  answers 42 from then on.
\<close>

definition steady_upstream :: "nat \<Rightarrow> (js_error + nat option) \<times> nat" where
  "steady_upstream w = (Inr (Some 42), Suc w)"

definition flaky_upstream :: "nat \<Rightarrow> (js_error + nat option) \<times> nat" where
  "flaky_upstream w = (if w = 0 then Inr None else Inr (Some 42), Suc w)"

definition first_call ::
  "(nat \<Rightarrow> (js_error + nat option) \<times> nat) \<Rightarrow> (js_error + nat option) \<times> nat MemoryCache \<times> nat \<times> nat" where
  "first_call upstream =
     cachedFetch ipinfoCache (generateCacheKey ''ipinfo'' ''8.8.8.8'' []) (counted upstream)
       CACHE_TTL_IPINFO_DATA 0 0 0 (0, 0)"

definition second_call ::
  "(nat \<Rightarrow> (js_error + nat option) \<times> nat) \<Rightarrow> (js_error + nat option) \<times> nat MemoryCache \<times> nat \<times> nat" where
  "second_call upstream =
     cachedFetch (fst (snd (first_call upstream))) (generateCacheKey ''ipinfo'' ''8.8.8.8'' [])
       (counted upstream) CACHE_TTL_IPINFO_DATA 1000 1000 1000 (snd (snd (first_call upstream)))"

section \<open>The connection quality as the specification words it\<close>

text \<open>
  The scoring as the specification states it, to compare with \<open>assessConnectionQuality\<close>:
  the round-trip bonus is \<open>+2\<close> below 50 ms and \<open>+1\<close> below 100 ms, for every round-trip
  time that is present.
\<close>

definition claimedConnectionScore :: "CloudflareRequestData \<Rightarrow> int" where
  "claimedConnectionScore cfData =
     (if cf_httpProtocol cfData = Some ''HTTP/3'' then 3
      else if cf_httpProtocol cfData = Some ''HTTP/2'' then 2
      else if cf_httpProtocol cfData = Some ''HTTP/1.1'' then 1 else 0)
   + (if cf_tlsVersion cfData = Some ''TLSv1.3'' then 2
      else if cf_tlsVersion cfData = Some ''TLSv1.2'' then 1 else 0)
   + (case cf_clientTcpRtt cfData of
        None \<Rightarrow> 0
      | Some rtt \<Rightarrow> if rtt < 50 then 2 else if rtt < 100 then 1 else 0)"

definition claimedConnectionQuality :: "CloudflareRequestData \<Rightarrow> string" where
  "claimedConnectionQuality cfData =
     (let score = claimedConnectionScore cfData
      in if score \<ge> 6 then ''excellent''
         else if score \<ge> 4 then ''good''
         else if score \<ge> 2 then ''fair''
         else ''poor'')"

section \<open>Regular expressions\<close>

text \<open>
  \<open>validateIP\<close> decides with two regular expressions, so the model holds them as syntax
  trees and matches them as JavaScript does. Here a string is the list of its UTF-16 code
  units, as integers: 46 is the full stop, 58 the colon, 37 the percent sign, 48 to 57
  the digits, 65 to 70 and 97 to 102 the letters of the hexadecimal digits.
  \<^verbatim>\<open>\s\<close> matches the white space and line terminator code units of the language, the
  dot every code unit but the four line terminators, \<^verbatim>\<open>\d\<close> the ten digits, and a word
  character (for \<^verbatim>\<open>\b\<close>) is a letter, a digit or the underscore.
\<close>

type_synonym cu = int

definition js_line_terminator :: "cu \<Rightarrow> bool" where
  "js_line_terminator x = (x = 10 \<or> x = 13 \<or> x = 8232 \<or> x = 8233)"

definition js_whitespace :: "cu \<Rightarrow> bool" where
  "js_whitespace x =
     (x = 9 \<or> x = 10 \<or> x = 11 \<or> x = 12 \<or> x = 13 \<or> x = 32 \<or> x = 160 \<or> x = 5760
      \<or> (8192 \<le> x \<and> x \<le> 8202) \<or> x = 8232 \<or> x = 8233 \<or> x = 8239 \<or> x = 8287
      \<or> x = 12288 \<or> x = 65279)"

definition is_word :: "cu \<Rightarrow> bool" where
  "is_word x = ((48 \<le> x \<and> x \<le> 57) \<or> (65 \<le> x \<and> x \<le> 90) \<or> x = 95 \<or> (97 \<le> x \<and> x \<le> 122))"

datatype atom = Ch cu | Rng cu cu | Digit | Space | Dot

fun atom_ok :: "atom \<Rightarrow> cu \<Rightarrow> bool" where
  "atom_ok (Ch c) x = (x = c)"
| "atom_ok (Rng a b) x = (a \<le> x \<and> x \<le> b)"
| "atom_ok Digit x = (48 \<le> x \<and> x \<le> 57)"
| "atom_ok Space x = js_whitespace x"
| "atom_ok Dot x = (\<not> js_line_terminator x)"

text \<open>
  \<open>One a\<close> is a single atom (a literal, \<^verbatim>\<open>\d\<close>, \<^verbatim>\<open>\s\<close> or the dot), \<open>Cls\<close> a bracket
  class, \<open>Empty\<close> the empty alternative, \<open>Rep lo hi r\<close> the bounded repetition
  \<^verbatim>\<open>r{lo,hi}\<close>, and \<open>WordB\<close>, \<open>Bol\<close>, \<open>Eol\<close> the assertions \<^verbatim>\<open>\b\<close>, \<^verbatim>\<open>^\<close> and \<^verbatim>\<open>$\<close>.
\<close>

datatype rx =
    One atom
  | Cls "atom list"
  | Empty
  | Seq rx rx
  | Alt rx rx
  | Rep nat nat rx
  | Star rx
  | WordB
  | Bol
  | Eol

definition Opt :: "rx \<Rightarrow> rx" where
  "Opt r = Rep 0 1 r"

definition Plus :: "rx \<Rightarrow> rx" where
  "Plus r = Seq r (Star r)"

fun cat :: "rx list \<Rightarrow> rx" where
  "cat [] = Empty"
| "cat [r] = r"
| "cat (r # rs) = Seq r (cat rs)"

fun alts :: "rx list \<Rightarrow> rx" where
  "alts [] = Cls []"
| "alts [r] = r"
| "alts (r # rs) = Alt r (alts rs)"

definition lit :: "char \<Rightarrow> rx" where
  "lit c = One (Ch (of_char c))"

definition rng :: "char \<Rightarrow> char \<Rightarrow> atom" where
  "rng a b = Rng (of_char a) (of_char b)"

definition anchored :: "rx \<Rightarrow> rx" where
  "anchored r = Seq Bol (Seq r Eol)"

definition str :: "string \<Rightarrow> cu list" where
  "str s = map of_char s"

text \<open>
  The matcher. A state is the code unit before the current position (none at the start
  of the input) and the rest of the input; \<open>ms r st\<close> lists every state in which a match
  of \<open>r\<close> that starts in \<open>st\<close> can end, which is what backtracking explores. \<open>iter\<close>
  repeats a matcher between \<open>lo\<close> and \<open>hi\<close> times; a star needs no more rounds than
  there are code units left. \<^verbatim>\<open>regex.test(s)\<close> is true when a match starts at some
  position of \<open>s\<close>.
\<close>

type_synonym mstate = "cu option \<times> cu list"

definition at_boundary :: "mstate \<Rightarrow> bool" where
  "at_boundary st =
     ((case fst st of None \<Rightarrow> False | Some x \<Rightarrow> is_word x)
      \<noteq> (case snd st of [] \<Rightarrow> False | x # xs \<Rightarrow> is_word x))"

fun iter :: "(mstate \<Rightarrow> mstate list) \<Rightarrow> nat \<Rightarrow> nat \<Rightarrow> mstate \<Rightarrow> mstate list" where
  "iter f lo 0 st = (if lo = 0 then [st] else [])"
| "iter f lo (Suc hi) st =
     (if lo = 0 then [st] else []) @ concat (map (iter f (lo - 1) hi) (f st))"

primrec ms :: "rx \<Rightarrow> mstate \<Rightarrow> mstate list" where
  "ms (One a) st = (case snd st of [] \<Rightarrow> [] | x # xs \<Rightarrow> if atom_ok a x then [(Some x, xs)] else [])"
| "ms (Cls as) st =
     (case snd st of [] \<Rightarrow> [] | x # xs \<Rightarrow> if list_ex (\<lambda>a. atom_ok a x) as then [(Some x, xs)] else [])"
| "ms Empty st = [st]"
| "ms (Seq r1 r2) st = concat (map (ms r2) (ms r1 st))"
| "ms (Alt r1 r2) st = ms r1 st @ ms r2 st"
| "ms (Rep lo hi r) st = iter (ms r) lo hi st"
| "ms (Star r) st = iter (ms r) 0 (length (snd st)) st"
| "ms WordB st = (if at_boundary st then [st] else [])"
| "ms Bol st = (if fst st = None then [st] else [])"
| "ms Eol st = (if snd st = [] then [st] else [])"

definition state_at :: "cu list \<Rightarrow> nat \<Rightarrow> mstate" where
  "state_at s i = (if i = 0 then None else Some (s ! (i - 1)), drop i s)"

definition test :: "rx \<Rightarrow> cu list \<Rightarrow> bool" where
  "test r s = list_ex (\<lambda>i. ms r (state_at s i) \<noteq> []) [0..<Suc (length s)]"

section \<open>The address validator (cloudflareUtils: validateIP)\<close>

text \<open>
  \<^verbatim>\<open>ipv4Regex = /^((25[0-5]|(2[0-4]|1\d|[1-9]|)\d)\.?\b){4}$/\<close>.
\<close>

definition octet4 :: rx where
  "octet4 =
     Alt (cat [lit CHR ''2'', lit CHR ''5'', Cls [rng CHR ''0'' CHR ''5'']])
         (Seq (alts [Seq (lit CHR ''2'') (Cls [rng CHR ''0'' CHR ''4'']),
                     Seq (lit CHR ''1'') (One Digit),
                     Cls [rng CHR ''1'' CHR ''9''],
                     Empty])
              (One Digit))"

definition ipv4Regex :: rx where
  "ipv4Regex = anchored (Rep 4 4 (cat [octet4, Opt (lit CHR ''.''), WordB]))"

text \<open>
  \<^verbatim>\<open>ipv6Regex\<close>, in the parts that recur in its text: \<open>H4\<close> is
  \<^verbatim>\<open>[0-9A-Fa-f]{1,4}\<close>, \<open>HC\<close> is \<^verbatim>\<open>[0-9A-Fa-f]{1,4}:\<close>, \<open>CH\<close> is
  \<^verbatim>\<open>:[0-9A-Fa-f]{1,4}\<close>, \<open>octet6\<close> is \<^verbatim>\<open>25[0-5]|2[0-4]\d|1\d\d|[1-9]?\d\<close>, \<open>quad6\<close>
  is \<^verbatim>\<open>(octet6)(\.(octet6)){3}\<close>, and \<open>b7\<close> to \<open>b0\<close> are the eight alternatives in
  the order of the source, named by the number of groups before the first colon pair.
  The whole is \<^verbatim>\<open>^\s*(b7|b6|b5|b4|b3|b2|b1|b0)(%.+)?\s*$\<close>.
\<close>

definition hexdig :: rx where
  "hexdig = Cls [rng CHR ''0'' CHR ''9'', rng CHR ''A'' CHR ''F'', rng CHR ''a'' CHR ''f'']"

definition H4 :: rx where
  "H4 = Rep 1 4 hexdig"

definition HC :: rx where
  "HC = Seq H4 (lit CHR '':'')"

definition CH :: rx where
  "CH = Seq (lit CHR '':'') H4"

definition octet6 :: rx where
  "octet6 =
     alts [cat [lit CHR ''2'', lit CHR ''5'', Cls [rng CHR ''0'' CHR ''5'']],
           cat [lit CHR ''2'', Cls [rng CHR ''0'' CHR ''4''], One Digit],
           cat [lit CHR ''1'', One Digit, One Digit],
           Seq (Opt (Cls [rng CHR ''1'' CHR ''9''])) (One Digit)]"

definition quad6 :: rx where
  "quad6 = Seq octet6 (Rep 3 3 (Seq (lit CHR ''.'') octet6))"

definition b7 :: rx where
  "b7 = Seq (Rep 7 7 HC) (Alt H4 (lit CHR '':''))"

definition b6 :: rx where
  "b6 = Seq (Rep 6 6 HC) (alts [CH, quad6, lit CHR '':''])"

definition b5 :: rx where
  "b5 = Seq (Rep 5 5 HC) (alts [Rep 1 2 CH, Seq (lit CHR '':'') quad6, lit CHR '':''])"

definition b4 :: rx where
  "b4 = Seq (Rep 4 4 HC) (alts [Rep 1 3 CH, cat [Opt CH, lit CHR '':'', quad6], lit CHR '':''])"

definition b3 :: rx where
  "b3 = Seq (Rep 3 3 HC) (alts [Rep 1 4 CH, cat [Rep 0 2 CH, lit CHR '':'', quad6], lit CHR '':''])"

definition b2 :: rx where
  "b2 = Seq (Rep 2 2 HC) (alts [Rep 1 5 CH, cat [Rep 0 3 CH, lit CHR '':'', quad6], lit CHR '':''])"

definition b1 :: rx where
  "b1 = Seq (Rep 1 1 HC) (alts [Rep 1 6 CH, cat [Rep 0 4 CH, lit CHR '':'', quad6], lit CHR '':''])"

definition b0 :: rx where
  "b0 = Seq (lit CHR '':'') (alts [Rep 1 7 CH, cat [Rep 0 5 CH, lit CHR '':'', quad6], lit CHR '':''])"

definition addr6 :: rx where
  "addr6 = alts [b7, b6, b5, b4, b3, b2, b1, b0]"

definition ipv6Regex :: rx where
  "ipv6Regex = anchored (cat [Star (One Space), addr6,
       Opt (Seq (lit CHR ''%'') (Plus (One Dot))), Star (One Space)])"

text \<open>
  The result of \<open>validateIP\<close>, with the fields of the source. The input is \<open>None\<close> when
  the argument is absent (\<^verbatim>\<open>undefined\<close> or \<^verbatim>\<open>null\<close>), which \<^verbatim>\<open>!ip\<close> treats as the empty
  string.
\<close>

record validation =
  valid :: bool
  version :: "nat option"
  error :: "string option"

definition validateIP :: "cu list option \<Rightarrow> validation" where
  "validateIP ip =
     (case ip of
        None \<Rightarrow> \<lparr>valid = False, version = None, error = Some ''IP address is required''\<rparr>
      | Some s \<Rightarrow>
          if s = [] then \<lparr>valid = False, version = None, error = Some ''IP address is required''\<rparr>
          else if test ipv4Regex s then \<lparr>valid = True, version = Some 4, error = None\<rparr>
          else if test ipv6Regex s then \<lparr>valid = True, version = Some 6, error = None\<rparr>
          else \<lparr>valid = False, version = None, error = Some ''Invalid IP address format''\<rparr>)"

section \<open>The geolocation endpoint (enhancedIPService: getGeolocation)\<close>

text \<open>
  What an endpoint of the service returns, and what \<^verbatim>\<open>enhancedCache\<close> keeps: an error
  response, a geolocation record or a combined record. The \<open>message\<close> of an error
  response is \<^verbatim>\<open>validation.error\<close>, which may be \<^verbatim>\<open>undefined\<close>, or the text of a caught
  error.
\<close>

record APIErrorResponse =
  err_code :: string
  err_message :: "string option"
  err_timestamp :: int
  err_requestId :: string

datatype response =
    Failure APIErrorResponse
  | Geolocation GeolocationResponse
  | Enhanced EnhancedIPResponse

definition createErrorResponse :: "string \<Rightarrow> string option \<Rightarrow> string \<Rightarrow> int \<Rightarrow> APIErrorResponse" where
  "createErrorResponse code message requestId now =
     \<lparr>err_code = code, err_message = message, err_timestamp = now, err_requestId = requestId\<rparr>"

definition CACHE_TTL_GEOLOCATION :: int where
  "CACHE_TTL_GEOLOCATION = 10 * 60 * 1000"

definition enhancedCache :: "response MemoryCache" where
  "enhancedCache = new_MemoryCache 200"

text \<open>
  The instants at which one call of the endpoint reads the clock: in \<^verbatim>\<open>enhancedCache.get\<close>,
  in the three places of the cached lookup (its \<^verbatim>\<open>get\<close>, and the cleanup and the timestamp
  of its \<^verbatim>\<open>set\<close>), in the cleanup and the timestamp of \<^verbatim>\<open>enhancedCache.set\<close>, and for the
  timestamp of an error response.
\<close>

record Instants =
  at_cache_get :: int
  at_lookup_get :: int
  at_lookup_cleanup :: int
  at_lookup_set :: int
  at_cache_cleanup :: int
  at_cache_set :: int
  at_error :: int

text \<open>
  \<^verbatim>\<open>getGeolocation(ip, request)\<close>. The address is a text of 8-bit characters, of which
  \<open>validateIP\<close> reads the code units. \<open>cfData\<close> is \<^verbatim>\<open>extractCloudflareData(request)\<close>,
  \<open>requestId\<close> the value of \<^verbatim>\<open>generateRequestId()\<close>, \<open>ec\<close> the state of
  \<^verbatim>\<open>enhancedCache\<close> and \<open>ic\<close> that of \<^verbatim>\<open>ipinfoCache\<close>, both of which the call returns
  updated. A cached value is returned as it is (\<^verbatim>\<open>if (cached) return cached\<close>; every
  stored record is truthy) before the edge metadata and the external result are looked
  at. An error thrown in the \<^verbatim>\<open>try\<close> block is answered by the \<^verbatim>\<open>catch\<close> block with
  \<^verbatim>\<open>error instanceof Error ? error.message : 'Unknown error occurred'\<close>, a text that the
  runtime decides and that is the parameter \<open>message\<close>. The calls of \<^verbatim>\<open>recordAnalytics\<close>
  append to the log of \<^verbatim>\<open>globalAnalytics\<close> only, which nothing here reads; they are
  left out.
\<close>

definition getGeolocation ::
  "(string \<Rightarrow> js_number) \<Rightarrow> (js_error \<Rightarrow> string)
     \<Rightarrow> (string \<Rightarrow> 'w \<Rightarrow> (js_error + IPInfoResponse http_response) \<times> 'w) \<Rightarrow> string
     \<Rightarrow> string \<Rightarrow> CloudflareRequestData \<Rightarrow> string \<Rightarrow> Instants
     \<Rightarrow> response MemoryCache \<Rightarrow> IPInfoResponse MemoryCache \<Rightarrow> 'w
     \<Rightarrow> response \<times> response MemoryCache \<times> IPInfoResponse MemoryCache \<times> 'w" where
  "getGeolocation parseFloat message http ipinfoToken ip cfData requestId t ec ic w =
     (let validation = validateIP (Some (str ip))
      in if \<not> valid validation
         then (Failure (createErrorResponse ''INVALID_IP'' (error validation) requestId (at_error t)),
               ec, ic, w)
         else
           (let cacheKey = generateCacheKey ''geolocation'' ip []
            in case MemoryCache_get ec cacheKey (at_cache_get t) of
                 (Some cached, ec1) \<Rightarrow> (cached, ec1, ic, w)
               | (None, ec1) \<Rightarrow>
                   (case fetchIPInfoDataCached http ipinfoToken ic ip
                           (at_lookup_get t) (at_lookup_cleanup t) (at_lookup_set t) w of
                      (Inl err, ic1, w1) \<Rightarrow>
                        (Failure (createErrorResponse ''PROCESSING_ERROR'' (Some (message err))
                                   requestId (at_error t)),
                         ec1, ic1, w1)
                    | (Inr ipinfoData, ic1, w1) \<Rightarrow>
                        (let result = getGeolocation_result parseFloat ip cfData ipinfoData
                         in (Geolocation result,
                             MemoryCache_set ec1 cacheKey (Some (Geolocation result))
                               CACHE_TTL_GEOLOCATION (at_cache_cleanup t) (at_cache_set t),
                             ic1, w1)))))"

text \<open>
  An upstream that answers every lookup as ipinfo.io answers one of a private address:
  status 200 and a body with the address and no country. The body's \<^verbatim>\<open>bogon: true\<close> is
  a field that the service never reads.
\<close>

definition bogon_upstream ::
  "string \<Rightarrow> string \<Rightarrow> 'w \<Rightarrow> (js_error + IPInfoResponse http_response) \<times> 'w" where
  "bogon_upstream ip url w = (Inr \<lparr>status = 200, json = Inr (Some (bare_lookup ip))\<rparr>, w)"

section \<open>The texts of addresses, as the specification words them\<close>

text \<open>
  An octet is one to three decimal digits with no leading zero and a value of at most
  255; a dotted quad is four octets separated by full stops.
\<close>

definition is_digit :: "cu \<Rightarrow> bool" where
  "is_digit x = (48 \<le> x \<and> x \<le> 57)"

definition decimal_value :: "cu list \<Rightarrow> int" where
  "decimal_value w = foldl (\<lambda>acc d. 10 * acc + (d - 48)) 0 w"

definition octet_text :: "cu list \<Rightarrow> bool" where
  "octet_text w =
     (1 \<le> length w \<and> length w \<le> 3 \<and> list_all is_digit w
      \<and> (length w = 1 \<or> hd w \<noteq> 48) \<and> decimal_value w \<le> 255)"

definition dotted_quad :: "cu list \<Rightarrow> bool" where
  "dotted_quad s =
     (\<exists>a b c d. octet_text a \<and> octet_text b \<and> octet_text c \<and> octet_text d
        \<and> s = a @ 46 # b @ 46 # c @ 46 # d)"

text \<open>
  A group is one to four hexadecimal digits; \<open>join\<close> writes groups with colons between
  them. An IPv6 address is eight groups; or six groups and a dotted quad; or at most seven
  groups with one \<^verbatim>\<open>::\<close> among them, before them or after them; or at most five groups and
  a final dotted quad, with one \<^verbatim>\<open>::\<close> before the quad. A zone id is a percent sign and
  at least one code unit, none of them a line terminator. The validator accepts an address
  with an optional zone id and with white space around the two.
\<close>

definition is_hex :: "cu \<Rightarrow> bool" where
  "is_hex x = ((48 \<le> x \<and> x \<le> 57) \<or> (65 \<le> x \<and> x \<le> 70) \<or> (97 \<le> x \<and> x \<le> 102))"

definition hextet :: "cu list \<Rightarrow> bool" where
  "hextet w = (1 \<le> length w \<and> length w \<le> 4 \<and> list_all is_hex w)"

fun join :: "cu list list \<Rightarrow> cu list" where
  "join [] = []"
| "join [g] = g"
| "join (g # gs) = g @ 58 # join gs"

definition ipv6_address :: "cu list \<Rightarrow> bool" where
  "ipv6_address a =
     ((\<exists>L. length L = 8 \<and> list_all hextet L \<and> a = join L)
      \<or> (\<exists>L q. length L = 6 \<and> list_all hextet L \<and> dotted_quad q \<and> a = join (L @ [q]))
      \<or> (\<exists>L R. length L + length R \<le> 7 \<and> list_all hextet L \<and> list_all hextet R
            \<and> a = join L @ [58, 58] @ join R)
      \<or> (\<exists>L R q. length L + length R \<le> 5 \<and> list_all hextet L \<and> list_all hextet R
            \<and> dotted_quad q \<and> a = join L @ [58, 58] @ join (R @ [q])))"

definition zone_suffix :: "cu list \<Rightarrow> bool" where
  "zone_suffix z =
     (z = [] \<or> (\<exists>t. z = 37 # t \<and> t \<noteq> [] \<and> list_all (\<lambda>x. \<not> js_line_terminator x) t))"

definition ipv6_text :: "cu list \<Rightarrow> bool" where
  "ipv6_text s =
     (\<exists>l a z r. s = l @ a @ z @ r \<and> list_all js_whitespace l \<and> ipv6_address a
        \<and> zone_suffix z \<and> list_all js_whitespace r)"

section \<open>The languages of regular expressions\<close>

text \<open>
  For a regular expression without assertions the matcher is described by a language:
  from a state it reaches exactly the states that lie one word of the language further
  on. \<open>lastc p w\<close> is the code unit before the position after reading \<open>w\<close>.
\<close>

definition lastc :: "cu option \<Rightarrow> cu list \<Rightarrow> cu option" where
  "lastc p w = (if w = [] then p else Some (last w))"

definition conc :: "cu list set \<Rightarrow> cu list set \<Rightarrow> cu list set" where
  "conc A B = {u @ v | u v. u \<in> A \<and> v \<in> B}"

primrec pow :: "cu list set \<Rightarrow> nat \<Rightarrow> cu list set" where
  "pow A 0 = {[]}"
| "pow A (Suc n) = conc A (pow A n)"

definition pow_range :: "cu list set \<Rightarrow> nat \<Rightarrow> nat \<Rightarrow> cu list set" where
  "pow_range A lo hi = (\<Union>k\<in>{lo..hi}. pow A k)"

primrec plain :: "rx \<Rightarrow> bool" where
  "plain (One a) = True"
| "plain (Cls as) = True"
| "plain Empty = True"
| "plain (Seq r1 r2) = (plain r1 \<and> plain r2)"
| "plain (Alt r1 r2) = (plain r1 \<and> plain r2)"
| "plain (Rep lo hi r) = plain r"
| "plain (Star r) = plain r"
| "plain WordB = False"
| "plain Bol = False"
| "plain Eol = False"

primrec lang :: "rx \<Rightarrow> cu list set" where
  "lang (One a) = {[x] | x. atom_ok a x}"
| "lang (Cls as) = {[x] | x. \<exists>a\<in>set as. atom_ok a x}"
| "lang Empty = {[]}"
| "lang (Seq r1 r2) = conc (lang r1) (lang r2)"
| "lang (Alt r1 r2) = lang r1 \<union> lang r2"
| "lang (Rep lo hi r) = pow_range (lang r) lo hi"
| "lang (Star r) = (\<Union>k. pow (lang r) k)"
| "lang WordB = {}"
| "lang Bol = {}"
| "lang Eol = {}"

definition reach :: "cu list set \<Rightarrow> mstate \<Rightarrow> mstate set" where
  "reach A st = {(lastc (fst st) w, s') | w s'. snd st = w @ s' \<and> w \<in> A}"

definition chars :: "(cu \<Rightarrow> bool) \<Rightarrow> cu list set" where
  "chars P = {[x] | x. P x}"

primrec steps :: "(mstate \<Rightarrow> mstate list) \<Rightarrow> nat \<Rightarrow> mstate \<Rightarrow> mstate set" where
  "steps f 0 st = {st}"
| "steps f (Suc n) st = (\<Union>st'\<in>set (f st). steps f n st')"

text \<open>The five shapes of the words of the octet expressions.\<close>

definition octet_shape :: "cu list \<Rightarrow> bool" where
  "octet_shape w =
     ((\<exists>d. w = [50, 53, d] \<and> 48 \<le> d \<and> d \<le> 53)
      \<or> (\<exists>a d. w = [50, a, d] \<and> 48 \<le> a \<and> a \<le> 52 \<and> 48 \<le> d \<and> d \<le> 57)
      \<or> (\<exists>a d. w = [49, a, d] \<and> 48 \<le> a \<and> a \<le> 57 \<and> 48 \<le> d \<and> d \<le> 57)
      \<or> (\<exists>a d. w = [a, d] \<and> 49 \<le> a \<and> a \<le> 57 \<and> 48 \<le> d \<and> d \<le> 57)
      \<or> (\<exists>d. w = [d] \<and> 48 \<le> d \<and> d \<le> 57))"

definition starts_word :: "cu list \<Rightarrow> bool" where
  "starts_word s = (case s of [] \<Rightarrow> False | x # xs \<Rightarrow> is_word x)"

definition group4 :: rx where
  "group4 = cat [octet4, Opt (lit CHR ''.''), WordB]"

text \<open>
  The words of the IPv6 alternatives: \<open>pre L\<close> writes every group of \<open>L\<close> with a colon
  after it, \<open>suf R\<close> every group of \<open>R\<close> with a colon before it; \<open>lead\<close> and \<open>trail\<close>
  are these, or the lone colon when there is no group. \<open>tail6\<close> is the second half shared
  by the alternatives \<open>b4\<close> to \<open>b0\<close>.
\<close>

definition pre :: "cu list list \<Rightarrow> cu list" where
  "pre L = concat (map (\<lambda>h. h @ [58]) L)"

definition suf :: "cu list list \<Rightarrow> cu list" where
  "suf R = concat (map (\<lambda>h. 58 # h) R)"

definition lead :: "cu list list \<Rightarrow> cu list" where
  "lead L = (if L = [] then [58] else pre L)"

definition trail :: "cu list list \<Rightarrow> cu list" where
  "trail R = (if R = [] then [58] else suf R)"

definition V4 :: "cu list set" where
  "V4 = {q. dotted_quad q}"

definition tail6 :: "nat \<Rightarrow> nat \<Rightarrow> rx" where
  "tail6 hi1 hi2 = alts [Rep 1 hi1 CH, cat [Rep 0 hi2 CH, lit CHR '':'', quad6], lit CHR '':'']"

definition COMPn :: "nat \<Rightarrow> cu list set" where
  "COMPn n = {lead L @ trail R | L R. length L = n \<and> length L + length R \<le> 7
                \<and> list_all hextet L \<and> list_all hextet R}"

definition COMP4n :: "nat \<Rightarrow> cu list set" where
  "COMP4n n = {lead L @ suf R @ 58 # q | L R q. length L = n \<and> length L + length R \<le> 5
                \<and> list_all hextet L \<and> list_all hextet R \<and> dotted_quad q}"

definition FULL :: "cu list set" where
  "FULL = {pre L @ h | L h. length L = 7 \<and> list_all hextet L \<and> hextet h}"

definition FULL4 :: "cu list set" where
  "FULL4 = {pre L @ q | L q. length L = 6 \<and> list_all hextet L \<and> dotted_quad q}"

section \<open>Properties of the cache\<close>

lemma map_of_set_same:
  "map_of (cache (MemoryCache_set c key d ttlMs nowc now)) key
     = Some \<lparr>data = d, timestamp = now, ttl = ttlMs\<rparr>"
  by (simp add: MemoryCache_set_def Let_def update_conv')

text \<open>
  Claim C3, as amended. After \<open>set(key, v, ttl)\<close> stored the entry at instant \<open>storedAt\<close>,
  \<open>get(key)\<close> at instant \<open>now\<close> returns \<open>v\<close> and leaves the cache as it is whenever
  \<open>now \<le> storedAt + ttl\<close>, and returns absent and removes the entry whenever
  \<open>now > storedAt + ttl\<close>. At the exact instant \<open>now = storedAt + ttl\<close> the entry is still live.
  This holds for every ttl, in particular every \<open>ttl \<ge> 0\<close>.
\<close>

theorem get_after_set:
  fixes c :: "'v MemoryCache"
  assumes "c' = MemoryCache_set c key v ttlMs nowc storedAt"
  shows "(now \<le> storedAt + ttlMs \<longrightarrow> MemoryCache_get c' key now = (v, c'))
       \<and> (now > storedAt + ttlMs \<longrightarrow>
            fst (MemoryCache_get c' key now) = None
          \<and> \<not> has_key (snd (MemoryCache_get c' key now)) key)"
proof -
  have e: "map_of (cache c') key = Some \<lparr>data = v, timestamp = storedAt, ttl = ttlMs\<rparr>"
    using assms by (simp add: map_of_set_same)
  show ?thesis
    by (auto simp: MemoryCache_get_def e has_key_def delete_conv')
qed

theorem get_after_set_witness:
  "MemoryCache_get (MemoryCache_set (new_MemoryCache 500) ''k'' (Some (7::nat)) 10 0 0) ''k'' 10
     = (Some 7, MemoryCache_set (new_MemoryCache 500) ''k'' (Some 7) 10 0 0)
   \<and> fst (MemoryCache_get (MemoryCache_set (new_MemoryCache 500) ''k'' (Some (7::nat)) 10 0 0) ''k'' 11) = None
   \<and> \<not> has_key (snd (MemoryCache_get (MemoryCache_set (new_MemoryCache 500) ''k'' (Some (7::nat)) 10 0 0) ''k'' 11)) ''k''"
  using get_after_set [of "MemoryCache_set (new_MemoryCache 500) ''k'' (Some (7::nat)) 10 0 0"
      "new_MemoryCache 500" "''k''" "Some 7" 10 0 0 10]
    get_after_set [of "MemoryCache_set (new_MemoryCache 500) ''k'' (Some (7::nat)) 10 0 0"
      "new_MemoryCache 500" "''k''" "Some 7" 10 0 0 11]
  by simp

text \<open>
  Claim C3 as stated fails at the boundary: an entry stored at instant 0 with ttl 10 is
  still returned at instant 10, where the claim wants it absent.
\<close>

theorem get_at_expiry_instant_counterexample:
  "fst (MemoryCache_get (MemoryCache_set (new_MemoryCache 500) ''k'' (Some (7::nat)) 10 0 0) ''k'' (0 + 10))
     = Some 7"
  by (simp add: MemoryCache_get_def MemoryCache_set_def new_MemoryCache_def)

subsection \<open>Capacity\<close>

lemma length_fold_delete_le: "length (fold AList.delete ks m) \<le> length m"
proof (induction ks arbitrary: m)
  case Nil
  then show ?case by simp
next
  case (Cons k ks)
  have "length (fold AList.delete ks (AList.delete k m)) \<le> length (AList.delete k m)"
    by (rule Cons.IH)
  also have "\<dots> \<le> length m" by (rule length_delete_le)
  finally show ?case by simp
qed

lemma distinct_fold_delete:
  "distinct (map fst m) \<Longrightarrow> distinct (map fst (fold AList.delete ks m))"
  by (induction ks arbitrary: m) (simp_all add: distinct_delete)

lemma delete_absent: "k \<notin> fst ` set m \<Longrightarrow> AList.delete k m = m"
  by (induction m) auto

lemma length_delete_present:
  "distinct (map fst m) \<Longrightarrow> k \<in> fst ` set m \<Longrightarrow> Suc (length (AList.delete k m)) = length m"
  by (induction m) (auto simp: delete_absent)

lemma keys_delete: "fst ` set (AList.delete k m) = fst ` set m - {k}"
  by (auto simp: AList.delete_eq image_iff)

lemma length_fold_delete_distinct:
  "distinct (map fst m) \<Longrightarrow> distinct ks \<Longrightarrow> set ks \<subseteq> fst ` set m
     \<Longrightarrow> length (fold AList.delete ks m) + length ks = length m"
proof (induction ks arbitrary: m)
  case Nil
  then show ?case by simp
next
  case (Cons k ks)
  have d: "distinct (map fst (AList.delete k m))"
    using Cons.prems(1) by (simp add: distinct_delete)
  have s: "set ks \<subseteq> fst ` set (AList.delete k m)"
    using Cons.prems(2,3) by (auto simp: keys_delete)
  have "length (fold AList.delete ks (AList.delete k m)) + length ks = length (AList.delete k m)"
    using Cons.IH [OF d _ s] Cons.prems(2) by simp
  moreover have "Suc (length (AList.delete k m)) = length m"
    using Cons.prems by (intro length_delete_present) auto
  ultimately show ?case by simp
qed

lemma distinct_keys_sort:
  "distinct (map fst m) \<Longrightarrow> distinct (map fst (sort_key f m))"
  by (simp add: distinct_map)

lemma length_update_le: "length (AList.update k v m) \<le> Suc (length m)"
  by (induction m) auto

text \<open>
  With a capacity of at least 5, \<open>cleanup\<close> of a cache that is not over capacity leaves
  room for one entry: the oldest fifth of the capacity is at least one entry.
\<close>

lemma cleanup_makes_room:
  fixes c :: "'v MemoryCache"
  assumes cap: "5 \<le> maxEntries c"
    and dist: "distinct (map fst (cache c))"
    and size: "int (length (cache c)) \<le> maxEntries c"
  shows "int (length (cache (MemoryCache_cleanup c now))) < maxEntries c"
proof -
  define m1 where "m1 = fold AList.delete
     (map fst (filter (\<lambda>(key, entry). now - timestamp entry > ttl entry) (cache c))) (cache c)"
  have m1_le: "length m1 \<le> length (cache c)"
    unfolding m1_def by (rule length_fold_delete_le)
  have m1_dist: "distinct (map fst m1)"
    unfolding m1_def using dist by (rule distinct_fold_delete)
  show ?thesis
  proof (cases "int (length m1) \<ge> maxEntries c")
    case False
    then show ?thesis
      by (simp add: MemoryCache_cleanup_def Let_def m1_def [symmetric])
  next
    case True
    define n where "n = nat (maxEntries c div 5)"
    define rm where "rm = map fst (take n (sort_key (\<lambda>(key, entry). timestamp entry) m1))"
    have n1: "1 \<le> n" and nle: "n \<le> length m1"
      using cap True by (simp_all add: n_def)
    have rm_len: "length rm = n"
      using nle by (simp add: rm_def)
    have rm_dist: "distinct rm"
      unfolding rm_def take_map [symmetric]
      by (rule distinct_take) (simp add: distinct_keys_sort m1_dist)
    have rm_sub: "set rm \<subseteq> fst ` set m1"
      unfolding rm_def using set_take_subset [of n "sort_key (\<lambda>(key, entry). timestamp entry) m1"]
      by auto
    have "length (fold AList.delete rm m1) + length rm = length m1"
      using m1_dist rm_dist rm_sub by (rule length_fold_delete_distinct)
    then have "int (length (fold AList.delete rm m1)) < maxEntries c"
      using rm_len n1 m1_le size by linarith
    moreover have "\<not> maxEntries c div 5 < 0"
      using cap by linarith
    then have "cache (MemoryCache_cleanup c now) = fold AList.delete rm m1"
      using True
      by (simp add: MemoryCache_cleanup_def Let_def m1_def [symmetric] slice0_def rm_def n_def)
    ultimately show ?thesis by simp
  qed
qed

lemma set_keeps_capacity:
  fixes c :: "'v MemoryCache"
  assumes cap: "5 \<le> maxEntries c"
    and dist: "distinct (map fst (cache c))"
    and size: "int (MemoryCache_size c) \<le> maxEntries c"
  shows "int (MemoryCache_size (MemoryCache_set c key d ttlMs nowc now)) \<le> maxEntries c"
proof (cases "int (length (cache c)) \<ge> maxEntries c")
  case True
  have "int (length (cache (MemoryCache_cleanup c nowc))) < maxEntries c"
    using cap dist size unfolding MemoryCache_size_def by (rule cleanup_makes_room)
  moreover have "length (AList.update key \<lparr>data = d, timestamp = now, ttl = ttlMs\<rparr>
        (cache (MemoryCache_cleanup c nowc))) \<le> Suc (length (cache (MemoryCache_cleanup c nowc)))"
    by (rule length_update_le)
  moreover have "maxEntries (MemoryCache_cleanup c nowc) = maxEntries c"
    by (simp add: MemoryCache_cleanup_def Let_def)
  ultimately show ?thesis
    using True by (simp add: MemoryCache_set_def MemoryCache_size_def Let_def)
next
  case False
  moreover have "length (AList.update key \<lparr>data = d, timestamp = now, ttl = ttlMs\<rparr> (cache c))
      \<le> Suc (length (cache c))"
    by (rule length_update_le)
  ultimately show ?thesis
    by (simp add: MemoryCache_set_def MemoryCache_size_def Let_def)
qed

text \<open>
  Claim C4 at a capacity below 5. The cache of capacity 4 holds 4 live entries, so its
  size is at most its capacity. \<open>set\<close> of a fifth key runs \<open>cleanup\<close>, which finds nothing
  expired and removes the oldest \<open>floor(4 * 0.2) = 0\<close> entries; the cache then holds 5
  entries, and a sixth key brings it to 6: it stays over capacity.
\<close>

theorem set_exceeds_small_capacity:
  "int (MemoryCache_size small_full_cache) \<le> maxEntries small_full_cache
   \<and> MemoryCache_size (MemoryCache_set small_full_cache ''e'' (Some 5) 1000 4 4) = 5
   \<and> MemoryCache_size (MemoryCache_set (MemoryCache_set small_full_cache ''e'' (Some 5) 1000 4 4)
         ''f'' (Some 6) 1000 5 5) = 6
   \<and> maxEntries (MemoryCache_set (MemoryCache_set small_full_cache ''e'' (Some 5) 1000 4 4)
         ''f'' (Some 6) 1000 5 5) = 4"
  by (simp add: MemoryCache_set_def MemoryCache_cleanup_def MemoryCache_size_def
      small_full_cache_def slice0_def)

subsection \<open>The cached lookup\<close>

lemma get_set_live:
  "tget \<le> tset + ttlMs \<Longrightarrow>
   MemoryCache_get (MemoryCache_set c key d ttlMs tclean tset) key tget
     = (d, MemoryCache_set c key d ttlMs tclean tset)"
  by (simp add: MemoryCache_get_def map_of_set_same)

text \<open>
  Claim C1, as amended. The first call of \<open>cachedFetch\<close> misses the cache, invokes the fetch
  function (once) and stores its result \<open>r1\<close>; the second call comes while that entry is
  live (\<open>tget2 \<le> tset1 + ttl\<close>). When \<open>r1\<close> is not \<^verbatim>\<open>null\<close>, the second call returns \<open>r1\<close>
  from the cache, changes neither the cache nor the world, and the fetch function has been
  invoked exactly once across the two calls. When \<open>r1\<close> is \<^verbatim>\<open>null\<close>, the second call does not
  serve it from the cache: it invokes the fetch function again, twice across the two
  calls, and returns what that second invocation returns.
\<close>

theorem cachedFetch_twice:
  fixes c :: "'v MemoryCache" and f :: "'w \<Rightarrow> (js_error + 'v option) \<times> 'w"
  assumes miss: "fst (MemoryCache_get c key tget1) = None"
    and first: "cachedFetch c key (counted f) ttlMs tget1 tclean1 tset1 (n, w) = (Inr r1, c1, (n1, w1))"
    and live: "tget2 \<le> tset1 + ttlMs"
    and second: "cachedFetch c1 key (counted f) ttlMs tget2 tclean2 tset2 (n1, w1) = (r2, c2, (n2, w2))"
  shows "n1 = n + 1
       \<and> (r1 \<noteq> None \<longrightarrow> r2 = Inr r1 \<and> n2 = n + 1 \<and> c2 = c1 \<and> w2 = w1)
       \<and> (r1 = None \<longrightarrow> r2 = fst (f w1) \<and> n2 = n + 2 \<and> w2 = snd (f w1))"
proof -
  obtain c0 where g: "MemoryCache_get c key tget1 = (None, c0)"
    using miss by (cases "MemoryCache_get c key tget1") auto
  obtain a w' where fw: "f w = (a, w')" by (cases "f w")
  from first g fw have a: "a = Inr r1" and n1: "n1 = Suc n" and w1: "w1 = w'"
    and c1: "c1 = MemoryCache_set c0 key r1 ttlMs tclean1 tset1"
    by (auto simp: cachedFetch_def counted_def split: sum.splits)
  have g2: "MemoryCache_get c1 key tget2 = (r1, c1)"
    unfolding c1 using live by (rule get_set_live)
  obtain b w'' where fw1: "f w1 = (b, w'')" by (cases "f w1")
  show ?thesis
    using second g2 fw1 n1
    by (auto simp: cachedFetch_def counted_def split: sum.splits)
qed

lemma first_call_steady:
  "first_call steady_upstream =
     (Inr (Some 42),
      \<lparr>cache = [(''ipinfo:8.8.8.8'', \<lparr>data = Some 42, timestamp = 0, ttl = 600000\<rparr>)],
       maxEntries = 500\<rparr>,
      (1, 1))"
  by (simp add: first_call_def cachedFetch_def counted_def steady_upstream_def ipinfoCache_def
      new_MemoryCache_def MemoryCache_get_def MemoryCache_set_def generateCacheKey_def
      CACHE_TTL_IPINFO_DATA_def)

lemma first_call_flaky:
  "first_call flaky_upstream =
     (Inr None,
      \<lparr>cache = [(''ipinfo:8.8.8.8'', \<lparr>data = None, timestamp = 0, ttl = 600000\<rparr>)],
       maxEntries = 500\<rparr>,
      (1, 1))"
  by (simp add: first_call_def cachedFetch_def counted_def flaky_upstream_def ipinfoCache_def
      new_MemoryCache_def MemoryCache_get_def MemoryCache_set_def generateCacheKey_def
      CACHE_TTL_IPINFO_DATA_def)

theorem cachedFetch_twice_witness:
  "fst (second_call steady_upstream) = Inr (Some 42)
   \<and> fst (snd (snd (second_call steady_upstream))) = 1
   \<and> fst (second_call flaky_upstream) = Inr (Some 42)
   \<and> fst (snd (snd (second_call flaky_upstream))) = 2"
proof -
  let ?key = "generateCacheKey ''ipinfo'' ''8.8.8.8'' []"
  have miss: "fst (MemoryCache_get (ipinfoCache :: nat MemoryCache) ?key 0) = None"
    by (simp add: MemoryCache_get_def ipinfoCache_def new_MemoryCache_def)
  have live: "(1000::int) \<le> 0 + CACHE_TTL_IPINFO_DATA"
    by (simp add: CACHE_TTL_IPINFO_DATA_def)
  have s1: "cachedFetch ipinfoCache ?key (counted steady_upstream) CACHE_TTL_IPINFO_DATA 0 0 0 (0, 0)
      = (Inr (Some 42), fst (snd (first_call steady_upstream)), (1, 1))"
    unfolding first_call_def [symmetric] by (simp add: first_call_steady)
  have s2: "cachedFetch (fst (snd (first_call steady_upstream))) ?key (counted steady_upstream)
       CACHE_TTL_IPINFO_DATA 1000 1000 1000 (1, 1)
      = (fst (second_call steady_upstream), fst (snd (second_call steady_upstream)),
         (fst (snd (snd (second_call steady_upstream))), snd (snd (snd (second_call steady_upstream)))))"
    by (simp add: second_call_def first_call_steady)
  have f1: "cachedFetch ipinfoCache ?key (counted flaky_upstream) CACHE_TTL_IPINFO_DATA 0 0 0 (0, 0)
      = (Inr None, fst (snd (first_call flaky_upstream)), (1, 1))"
    unfolding first_call_def [symmetric] by (simp add: first_call_flaky)
  have f2: "cachedFetch (fst (snd (first_call flaky_upstream))) ?key (counted flaky_upstream)
       CACHE_TTL_IPINFO_DATA 1000 1000 1000 (1, 1)
      = (fst (second_call flaky_upstream), fst (snd (second_call flaky_upstream)),
         (fst (snd (snd (second_call flaky_upstream))), snd (snd (snd (second_call flaky_upstream)))))"
    by (simp add: second_call_def first_call_flaky)
  show ?thesis
    using cachedFetch_twice [OF miss s1 live s2] cachedFetch_twice [OF miss f1 live f2]
    by (simp add: flaky_upstream_def)
qed

text \<open>
  Claim C1 as stated fails for a cached \<^verbatim>\<open>null\<close>. The first lookup fails and \<^verbatim>\<open>null\<close> is
  stored at instant 0 with a ttl of 600000 ms; the second call, at instant 1000, does not
  return the cached \<^verbatim>\<open>null\<close> but invokes the fetch function a second time and returns its
  fresh answer.
\<close>

theorem cachedFetch_null_counterexample:
  "fst (first_call flaky_upstream) = Inr None
   \<and> fst (second_call flaky_upstream) = Inr (Some 42)
   \<and> fst (snd (snd (second_call flaky_upstream))) = 2"
  by (simp add: second_call_def first_call_flaky cachedFetch_def counted_def flaky_upstream_def
      MemoryCache_get_def MemoryCache_set_def generateCacheKey_def CACHE_TTL_IPINFO_DATA_def)

section \<open>Properties of the external lookup client\<close>

text \<open>
  Claim C9. Whatever the outbound HTTP call does, \<open>fetchIPInfoData\<close> returns and never
  throws, and it makes exactly the one call. It returns \<^verbatim>\<open>null\<close> when the call rejects
  (a transport error or any thrown exception), when the status is not a 2xx and when the
  body of a 2xx response does not parse; it returns the parsed body of a 2xx response
  otherwise.
\<close>

theorem fetchIPInfoData_never_throws:
  fixes http :: "string \<Rightarrow> 'w \<Rightarrow> (js_error + 'v http_response) \<times> 'w"
  shows "(\<exists>v. fst (fetchIPInfoData http ipinfoToken ip w) = Inr v)
     \<and> snd (fetchIPInfoData http ipinfoToken ip w) = snd (http (fetchUrl ip ipinfoToken) w)
     \<and> (\<forall>err. fst (http (fetchUrl ip ipinfoToken) w) = Inl err
           \<longrightarrow> fst (fetchIPInfoData http ipinfoToken ip w) = Inr None)
     \<and> (\<forall>response. fst (http (fetchUrl ip ipinfoToken) w) = Inr response \<and> \<not> ok response
           \<longrightarrow> fst (fetchIPInfoData http ipinfoToken ip w) = Inr None)
     \<and> (\<forall>response err. fst (http (fetchUrl ip ipinfoToken) w) = Inr response \<and> ok response
             \<and> json response = Inl err
           \<longrightarrow> fst (fetchIPInfoData http ipinfoToken ip w) = Inr None)
     \<and> (\<forall>response body. fst (http (fetchUrl ip ipinfoToken) w) = Inr response \<and> ok response
             \<and> json response = Inr body
           \<longrightarrow> fst (fetchIPInfoData http ipinfoToken ip w) = Inr body)"
  by (cases "http (fetchUrl ip ipinfoToken) w")
    (auto simp: fetchIPInfoData_def fetchIPInfoData_try_def split: sum.splits)

theorem fetchIPInfoData_never_throws_witness:
  "fst (fetchIPInfoData (\<lambda>url w. (Inl NetworkError, Suc w)) ''token'' ''8.8.8.8'' (0::nat))
     = (Inr None :: js_error + nat option)
   \<and> fst (fetchIPInfoData (\<lambda>url w. (Inr \<lparr>status = 503, json = Inr (Some 1)\<rparr>, Suc w))
       ''token'' ''8.8.8.8'' (0::nat)) = (Inr None :: js_error + nat option)
   \<and> fst (fetchIPInfoData (\<lambda>url w. (Inr \<lparr>status = 200, json = Inl SyntaxError\<rparr>, Suc w))
       ''token'' ''8.8.8.8'' (0::nat)) = (Inr None :: js_error + nat option)
   \<and> fst (fetchIPInfoData (\<lambda>url w. (Inr \<lparr>status = 200, json = Inr (Some 1)\<rparr>, Suc w))
       ''token'' ''8.8.8.8'' (0::nat)) = (Inr (Some 1) :: js_error + nat option)"
  using fetchIPInfoData_never_throws
      [of "\<lambda>url w. (Inl NetworkError :: js_error + nat http_response, Suc w)"
        "''token''" "''8.8.8.8''" "0::nat"]
    fetchIPInfoData_never_throws
      [of "\<lambda>url w. (Inr \<lparr>status = 503, json = Inr (Some (1::nat))\<rparr>, Suc w)" "''token''" "''8.8.8.8''" "0::nat"]
    fetchIPInfoData_never_throws
      [of "\<lambda>url w. (Inr \<lparr>status = 200, json = (Inl SyntaxError :: js_error + nat option)\<rparr>, Suc w)"
        "''token''" "''8.8.8.8''" "0::nat"]
    fetchIPInfoData_never_throws
      [of "\<lambda>url w. (Inr \<lparr>status = 200, json = Inr (Some (1::nat))\<rparr>, Suc w)" "''token''" "''8.8.8.8''" "0::nat"]
  by (simp add: ok_def)

section \<open>Properties of the scoring rules\<close>

lemma quality_as_claimed_unless_zero:
  "cf_clientTcpRtt cfData \<noteq> Some 0 \<Longrightarrow> assessConnectionQuality cfData = claimedConnectionQuality cfData"
  by (simp add: assessConnectionQuality_def connectionScore_def claimedConnectionQuality_def
      claimedConnectionScore_def split: option.splits)

text \<open>
  Claim C7 at a round-trip time of exactly 0 ms. For HTTP/2 with TLSv1.3 and a round-trip
  time of 0 the claimed sum is \<open>2 + 2 + 2 = 6\<close> and the quality \<open>excellent\<close>; the code
  gives no round-trip bonus to a time of 0, scores \<open>2 + 2 = 4\<close> and answers \<open>good\<close>.
\<close>

theorem quality_at_zero_rtt:
  "assessConnectionQuality zero_rtt_edge = ''good''
   \<and> connectionScore zero_rtt_edge = 4
   \<and> claimedConnectionQuality zero_rtt_edge = ''excellent''
   \<and> claimedConnectionScore zero_rtt_edge = 6"
  by (simp add: assessConnectionQuality_def connectionScore_def claimedConnectionQuality_def
      claimedConnectionScore_def zero_rtt_edge_def no_edge_data_def)

lemma tor_and_proxy_is_high:
  "privacy_flag ipinfoData pr_tor \<Longrightarrow> privacy_flag ipinfoData pr_proxy
    \<Longrightarrow> assessThreatLevel cfData (opt_chain ipinfoData ii_privacy) = ''high''"
  by (auto simp: privacy_flag_def assessThreatLevel_def riskScore_def Let_def split: option.splits)

text \<open>
  Claim C6. In the combined record and in the security view alike, \<open>malicious\<close> is true
  exactly when the threat level is \<open>high\<close> or both the \<open>tor\<close> and the \<open>proxy\<close> flag of the
  external result are set, and the two paths give the same value. The combined record
  tests the threat level only, which is the same: \<open>tor\<close> and \<open>proxy\<close> together score
  \<open>3 + 2 = 5\<close>, which is \<open>high\<close>.
\<close>

theorem malicious_iff_high_or_tor_and_proxy:
  "sec_malicious (r_security (combineData parseFloat parseInt ip ipVersion cfData ipinfoData requestId startTime now1 now2))
     = (sec_threatLevel (r_security (combineData parseFloat parseInt ip ipVersion cfData ipinfoData requestId startTime now1 now2)) = ''high''
        \<or> (privacy_flag ipinfoData pr_tor \<and> privacy_flag ipinfoData pr_proxy))
   \<and> sv_malicious (getSecurityInfo ip cfData ipinfoData)
     = (sv_threatLevel (getSecurityInfo ip cfData ipinfoData) = ''high''
        \<or> (privacy_flag ipinfoData pr_tor \<and> privacy_flag ipinfoData pr_proxy))
   \<and> sv_malicious (getSecurityInfo ip cfData ipinfoData)
     = sec_malicious (r_security (combineData parseFloat parseInt ip ipVersion cfData ipinfoData requestId startTime now1 now2))"
  using tor_and_proxy_is_high [of ipinfoData cfData]
  by (auto simp: combineData_def getSecurityInfo_def Let_def)

section \<open>Properties of the reconciliation\<close>

text \<open>
  Claim C10. In every combined record \<open>sources.cloudflare\<close> is true exactly when the edge
  metadata supplied a country or an edge-node code, and \<open>location.sources\<close> contains
  \<open>cloudflare\<close> exactly when it supplied a country. So with an edge-node code and no
  country the flag is true while the list does not name \<open>cloudflare\<close>.
\<close>

theorem cloudflare_source_indicators:
  "src_cloudflare (r_sources (combineData parseFloat parseInt ip ipVersion cfData ipinfoData requestId startTime now1 now2))
      = (truthy (cf_country cfData) \<or> truthy (cf_colo cfData))
   \<and> (''cloudflare'' \<in> set (loc_sources (r_location (combineData parseFloat parseInt ip ipVersion cfData ipinfoData requestId startTime now1 now2))))
      = truthy (cf_country cfData)
   \<and> (truthy (cf_colo cfData) \<and> \<not> truthy (cf_country cfData) \<longrightarrow>
        src_cloudflare (r_sources (combineData parseFloat parseInt ip ipVersion cfData ipinfoData requestId startTime now1 now2))
      \<and> ''cloudflare'' \<notin> set (loc_sources (r_location (combineData parseFloat parseInt ip ipVersion cfData ipinfoData requestId startTime now1 now2))))"
  by (auto simp: combineData_def combineData_sources_def Let_def js_or_def)

theorem cloudflare_source_indicators_witness:
  "src_cloudflare (r_sources (combineData no_parse no_parse ''8.8.8.8'' 4 colo_only_edge None ''req_1'' 0 5 5))
   \<and> ''cloudflare'' \<notin> set (loc_sources (r_location (combineData no_parse no_parse ''8.8.8.8'' 4 colo_only_edge None ''req_1'' 0 5 5)))"
  using cloudflare_source_indicators [of no_parse no_parse "''8.8.8.8''" 4 colo_only_edge None "''req_1''" 0 5 5]
  by (simp add: colo_only_edge_def no_edge_data_def truthy_def)

text \<open>
  Claim C5, as amended. The combined record depends on the request id, the start time and
  the clock only in its fields \<open>requestId\<close>, \<open>timestamp\<close> and \<open>processingTime\<close>: two
  reconciliations of the same address, edge metadata and external result give records
  that are equal in every other field, and equal altogether once those three are.
\<close>

theorem combineData_deterministic_but_metadata:
  "combineData parseFloat parseInt ip ipVersion cfData ipinfoData requestId' startTime' now1' now2'
     = (combineData parseFloat parseInt ip ipVersion cfData ipinfoData requestId startTime now1 now2)
         \<lparr>r_requestId := requestId', r_timestamp := now1',
          r_processingTime := calculateProcessingTime now2' startTime'\<rparr>"
  by (simp add: combineData_def Let_def)

text \<open>
  Claim C5 as stated fails: the same address, edge metadata, external result, request id
  and start time, reconciled at the instants 5 and 9, give two records that differ (in
  \<open>timestamp\<close> and \<open>processingTime\<close>).
\<close>

theorem combineData_clock_counterexample:
  "combineData no_parse no_parse ''8.8.8.8'' 4 country_only_edge (Some (bare_lookup ''8.8.8.8'')) ''req_1'' 0 5 5
   \<noteq> combineData no_parse no_parse ''8.8.8.8'' 4 country_only_edge (Some (bare_lookup ''8.8.8.8'')) ''req_1'' 0 9 9"
  by (simp add: combineData_def Let_def calculateProcessingTime_def)

subsection \<open>The focused views against the combined record\<close>

text \<open>
  The security view and the combined record compute the threat level by the same call of
  \<open>assessThreatLevel\<close>.
\<close>

lemma threat_level_agrees:
  "sv_threatLevel (getSecurityInfo ip cfData ipinfoData)
     = sec_threatLevel (r_security (combineData parseFloat parseInt ip ipVersion cfData ipinfoData requestId startTime now1 now2))"
  by (simp add: combineData_def getSecurityInfo_def Let_def)

text \<open>
  The geolocation view counts the external result as a source when it supplies a country
  (\<^verbatim>\<open>ipinfoData?.country\<close>), the combined record whenever it is not \<^verbatim>\<open>null\<close>
  (\<^verbatim>\<open>ipinfoData\<close>): the two lists are equal exactly when the external result is \<^verbatim>\<open>null\<close>
  or supplies a country.
\<close>

lemma sources_agree_iff:
  "(geo_sources (getGeolocation_result parseFloat ip cfData ipinfoData)
      = loc_sources (r_location (combineData parseFloat parseInt ip ipVersion cfData ipinfoData requestId startTime now1 now2)))
   = (ipinfoData = None \<or> truthy (opt_chain ipinfoData ii_country))"
  by (auto simp: combineData_def getGeolocation_result_def Let_def
      combineData_sources_def getGeolocation_sources_def opt_chain_def truthy_def split: option.splits)

text \<open>
  For the accuracy the view tests the latitude and longitude texts of the edge metadata,
  the combined record the parsed coordinates. Where the lists of sources agree and the two
  tests agree, so do the classifications.
\<close>

lemma accuracy_agrees_when:
  assumes "ipinfoData = None \<or> truthy (opt_chain ipinfoData ii_country)"
    and "(truthy (cf_latitude cfData) \<and> truthy (cf_longitude cfData))
          = (truthy_num (latitude (extractCoordinates parseFloat cfData ipinfoData))
             \<and> truthy_num (longitude (extractCoordinates parseFloat cfData ipinfoData)))"
  shows "geo_accuracy (getGeolocation_result parseFloat ip cfData ipinfoData)
        = loc_accuracy (r_location (combineData parseFloat parseInt ip ipVersion cfData ipinfoData requestId startTime now1 now2))"
  using assms
  by (auto simp: combineData_def getGeolocation_result_def Let_def
      combineData_sources_def getGeolocation_sources_def opt_chain_def truthy_def split: option.splits)

text \<open>
  The endpoint on a valid address: when \<^verbatim>\<open>enhancedCache\<close> holds nothing live for the
  address, it returns the record built from the edge metadata of this request and the
  external result; when it holds a value, it returns that value, whatever the edge
  metadata of this request.
\<close>

lemma getGeolocation_miss:
  assumes "valid (validateIP (Some (str ip)))"
    and "fst (MemoryCache_get ec (generateCacheKey ''geolocation'' ip []) (at_cache_get t)) = None"
    and "fst (fetchIPInfoDataCached http ipinfoToken ic ip
                (at_lookup_get t) (at_lookup_cleanup t) (at_lookup_set t) w) = Inr ipinfoData"
  shows "fst (getGeolocation parseFloat message http ipinfoToken ip cfData requestId t ec ic w)
     = Geolocation (getGeolocation_result parseFloat ip cfData ipinfoData)"
  using assms
  by (auto simp: getGeolocation_def Let_def split: prod.splits option.splits sum.splits)

lemma getGeolocation_hit:
  assumes "valid (validateIP (Some (str ip)))"
    and "fst (MemoryCache_get ec (generateCacheKey ''geolocation'' ip []) (at_cache_get t)) = Some cached"
  shows "fst (getGeolocation parseFloat message http ipinfoToken ip cfData requestId t ec ic w) = cached"
  using assms
  by (auto simp: getGeolocation_def Let_def split: prod.splits option.splits sum.splits)

text \<open>
  Claim C2. The focused views are to give the same accuracy classification, list of
  contributing sources and threat level as the combined record built from the same edge
  metadata and the same external result. The geolocation view does not. A request for
  the private address \<^verbatim>\<open>10.0.0.1\<close> that carries no edge metadata, with both caches empty
  and an upstream that answers with a body without a country, is answered by the endpoint
  with the record of the view, whose list of sources is empty and whose accuracy is
  \<open>low\<close>; the combined record built from the same edge metadata and the same external
  result lists \<open>ipinfo\<close> and classifies the accuracy as \<open>medium\<close>. This holds for every
  \<^verbatim>\<open>parseFloat\<close> and \<^verbatim>\<open>parseInt\<close>, every token, request id and reading of the clock.
\<close>

theorem geolocation_view_differs_from_combined:
  "fst (getGeolocation parseFloat message (bogon_upstream ''10.0.0.1'') ipinfoToken ''10.0.0.1''
          no_edge_data requestId t enhancedCache ipinfoCache w)
     = Geolocation (getGeolocation_result parseFloat ''10.0.0.1'' no_edge_data (Some (bare_lookup ''10.0.0.1'')))
   \<and> geo_sources (getGeolocation_result parseFloat ''10.0.0.1'' no_edge_data (Some (bare_lookup ''10.0.0.1''))) = []
   \<and> geo_accuracy (getGeolocation_result parseFloat ''10.0.0.1'' no_edge_data (Some (bare_lookup ''10.0.0.1''))) = ''low''
   \<and> loc_sources (r_location (combineData parseFloat parseInt ''10.0.0.1'' 4 no_edge_data
         (Some (bare_lookup ''10.0.0.1'')) requestId startTime now1 now2)) = [''ipinfo'']
   \<and> loc_accuracy (r_location (combineData parseFloat parseInt ''10.0.0.1'' 4 no_edge_data
         (Some (bare_lookup ''10.0.0.1'')) requestId startTime now1 now2)) = ''medium''"
proof -
  have v: "valid (validateIP (Some (str ''10.0.0.1'')))"
    by code_simp
  have "fst (getGeolocation parseFloat message (bogon_upstream ''10.0.0.1'') ipinfoToken ''10.0.0.1''
          no_edge_data requestId t enhancedCache ipinfoCache w)
     = Geolocation (getGeolocation_result parseFloat ''10.0.0.1'' no_edge_data (Some (bare_lookup ''10.0.0.1'')))"
    using v
    by (simp add: getGeolocation_def Let_def enhancedCache_def ipinfoCache_def new_MemoryCache_def
        MemoryCache_get_def fetchIPInfoDataCached_def cachedFetch_def fetchIPInfoData_def
        fetchIPInfoData_try_def bogon_upstream_def ok_def)
  moreover have "geo_sources (getGeolocation_result parseFloat ''10.0.0.1'' no_edge_data (Some (bare_lookup ''10.0.0.1''))) = []
   \<and> geo_accuracy (getGeolocation_result parseFloat ''10.0.0.1'' no_edge_data (Some (bare_lookup ''10.0.0.1''))) = ''low''"
    by (simp add: getGeolocation_result_def getGeolocation_sources_def Let_def opt_chain_def
        truthy_def no_edge_data_def bare_lookup_def)
  moreover have "loc_sources (r_location (combineData parseFloat parseInt ''10.0.0.1'' 4 no_edge_data
         (Some (bare_lookup ''10.0.0.1'')) requestId startTime now1 now2)) = [''ipinfo'']
   \<and> loc_accuracy (r_location (combineData parseFloat parseInt ''10.0.0.1'' 4 no_edge_data
         (Some (bare_lookup ''10.0.0.1'')) requestId startTime now1 now2)) = ''medium''"
    by (simp add: combineData_def combineData_sources_def Let_def truthy_def no_edge_data_def)
  ultimately show ?thesis by simp
qed

section \<open>Properties of the address validator\<close>

subsection \<open>The matcher and the languages\<close>

lemma lastc_append: "lastc (lastc p u) v = lastc p (u @ v)"
  by (simp add: lastc_def)

lemma reach_conc: "(\<Union>st'\<in>reach A st. reach B st') = reach (conc A B) st"
proof (rule set_eqI)
  fix x
  show "x \<in> (\<Union>st'\<in>reach A st. reach B st') \<longleftrightarrow> x \<in> reach (conc A B) st"
  proof
    assume "x \<in> (\<Union>st'\<in>reach A st. reach B st')"
    then obtain u s1 v s2 where "snd st = u @ s1" "u \<in> A" "s1 = v @ s2" "v \<in> B"
      "x = (lastc (lastc (fst st) u) v, s2)"
      by (auto simp: reach_def)
    then have "snd st = (u @ v) @ s2" "u @ v \<in> conc A B" "x = (lastc (fst st) (u @ v), s2)"
      by (auto simp: conc_def lastc_append)
    then show "x \<in> reach (conc A B) st"
      unfolding reach_def by blast
  next
    assume "x \<in> reach (conc A B) st"
    then obtain u v s2 where "snd st = (u @ v) @ s2" "u \<in> A" "v \<in> B"
      "x = (lastc (fst st) (u @ v), s2)"
      by (auto simp: reach_def conc_def)
    then have "(lastc (fst st) u, v @ s2) \<in> reach A st"
      and "x \<in> reach B (lastc (fst st) u, v @ s2)"
      by (auto simp: reach_def lastc_append)
    then show "x \<in> (\<Union>st'\<in>reach A st. reach B st')" by blast
  qed
qed

lemma reach_Un: "reach (A \<union> B) st = reach A st \<union> reach B st"
  by (auto simp: reach_def)

lemma reach_empty: "reach {} st = {}"
  by (simp add: reach_def)

lemma reach_eps: "reach {[]} st = {st}"
  by (cases st) (simp add: reach_def lastc_def)

lemma pow_range_0: "pow_range A lo 0 = (if lo = 0 then {[]} else {})"
  by (auto simp: pow_range_def)

lemma range_Suc_split: "{lo..Suc hi} = (if lo = 0 then {0} else {}) \<union> Suc ` {lo - 1..hi}"
proof (rule set_eqI)
  fix k
  show "k \<in> {lo..Suc hi} \<longleftrightarrow> k \<in> (if lo = 0 then {0} else {}) \<union> Suc ` {lo - 1..hi}"
  proof (cases k)
    case 0
    then show ?thesis by auto
  next
    case (Suc j)
    then show ?thesis by (auto simp: image_iff)
  qed
qed

lemma conc_UN: "conc A (\<Union>k\<in>K. B k) = (\<Union>k\<in>K. conc A (B k))"
  unfolding conc_def by blast

lemma pow_range_Suc: "pow_range A lo (Suc hi) = (if lo = 0 then {[]} else {}) \<union> conc A (pow_range A (lo - 1) hi)"
proof -
  have "pow_range A lo (Suc hi)
      = (\<Union>k\<in>(if lo = 0 then {0} else {}). pow A k) \<union> (\<Union>k\<in>Suc ` {lo - 1..hi}. pow A k)"
    unfolding pow_range_def by (subst range_Suc_split) (rule UN_Un)
  moreover have "(\<Union>k\<in>(if lo = 0 then {0} else {}). pow A k) = (if lo = 0 then {[]} else {})"
    by simp
  moreover have "(\<Union>k\<in>Suc ` {lo - 1..hi}. pow A k) = (\<Union>j\<in>{lo - 1..hi}. conc A (pow A j))"
    by (simp del: image_Suc_atLeastAtMost add: image_image)
  moreover have "(\<Union>j\<in>{lo - 1..hi}. conc A (pow A j)) = conc A (pow_range A (lo - 1) hi)"
    unfolding pow_range_def conc_UN ..
  ultimately show ?thesis by (simp only:)
qed

lemma iter_reach:
  assumes f: "\<And>st. set (f st) = reach A st"
  shows "set (iter f lo hi st) = reach (pow_range A lo hi) st"
proof (induction hi arbitrary: lo st)
  case 0
  show ?case by (simp add: pow_range_0 reach_eps reach_empty)
next
  case (Suc hi)
  have "set (iter f lo (Suc hi) st)
      = (if lo = 0 then {st} else {}) \<union> (\<Union>st'\<in>reach A st. reach (pow_range A (lo - 1) hi) st')"
    by (simp add: f Suc.IH)
  also have "\<dots> = reach (pow_range A lo (Suc hi)) st"
    by (simp add: reach_conc pow_range_Suc reach_Un reach_eps reach_empty)
  finally show ?case .
qed

lemma pow_short: "w \<in> pow A k \<Longrightarrow> \<exists>j\<le>length w. w \<in> pow A j"
proof (induction k arbitrary: w)
  case 0
  then show ?case by auto
next
  case (Suc k)
  then obtain u v where uv: "w = u @ v" "u \<in> A" "v \<in> pow A k"
    by (auto simp: conc_def)
  from Suc.IH [OF uv(3)] obtain j where j: "j \<le> length v" "v \<in> pow A j" by blast
  show ?case
  proof (cases "u = []")
    case True
    with uv j show ?thesis by auto
  next
    case False
    then have "Suc j \<le> length w" using uv j by (cases u) auto
    moreover have "w \<in> pow A (Suc j)" using uv j by (auto simp: conc_def)
    ultimately show ?thesis by blast
  qed
qed

lemma reach_star: "reach (pow_range A 0 (length (snd st))) st = reach (\<Union>k. pow A k) st"
proof
  show "reach (pow_range A 0 (length (snd st))) st \<subseteq> reach (\<Union>k. pow A k) st"
    by (auto simp: reach_def pow_range_def)
  show "reach (\<Union>k. pow A k) st \<subseteq> reach (pow_range A 0 (length (snd st))) st"
  proof
    fix x
    assume "x \<in> reach (\<Union>k. pow A k) st"
    then obtain w s' k where w: "snd st = w @ s'" "w \<in> pow A k" "x = (lastc (fst st) w, s')"
      by (auto simp: reach_def)
    from pow_short [OF w(2)] obtain j where "j \<le> length w" "w \<in> pow A j" by blast
    then have "w \<in> pow_range A 0 (length (snd st))"
      using w(1) by (auto simp: pow_range_def)
    with w show "x \<in> reach (pow_range A 0 (length (snd st))) st"
      unfolding reach_def by blast
  qed
qed

lemma reach_single:
  "reach {[x] | x. P x} (p, s) = (case s of [] \<Rightarrow> {} | x # xs \<Rightarrow> if P x then {(Some x, xs)} else {})"
proof (cases s)
  case Nil
  then show ?thesis by (simp add: reach_def)
next
  case (Cons y ys)
  have "reach {[x] | x. P x} (p, y # ys) = (if P y then {(Some y, ys)} else {})"
  proof (rule set_eqI)
    fix st
    show "st \<in> reach {[x] | x. P x} (p, y # ys) \<longleftrightarrow> st \<in> (if P y then {(Some y, ys)} else {})"
    proof
      assume "st \<in> reach {[x] | x. P x} (p, y # ys)"
      then obtain x s' where "y # ys = [x] @ s'" "P x" "st = (lastc p [x], s')"
        unfolding reach_def by auto
      then show "st \<in> (if P y then {(Some y, ys)} else {})"
        by (simp add: lastc_def)
    next
      assume "st \<in> (if P y then {(Some y, ys)} else {})"
      then have "P y" "st = (lastc p [y], ys)" "y # ys = [y] @ ys"
        by (simp_all add: lastc_def split: if_splits)
      then show "st \<in> reach {[x] | x. P x} (p, y # ys)"
        unfolding reach_def by fastforce
    qed
  qed
  with Cons show ?thesis by simp
qed

lemma ms_One: "set (ms (One a) (p, s)) = reach (lang (One a)) (p, s)"
  unfolding lang.simps reach_single by (simp split: list.splits)

lemma ms_Cls: "set (ms (Cls as) (p, s)) = reach (lang (Cls as)) (p, s)"
  unfolding lang.simps reach_single by (simp split: list.splits add: list_ex_iff)

lemma ms_lang: "plain r \<Longrightarrow> set (ms r st) = reach (lang r) st"
proof (induction r arbitrary: st)
  case (One a)
  show ?case using ms_One [of a "fst st" "snd st"] by simp
next
  case (Cls as)
  show ?case using ms_Cls [of as "fst st" "snd st"] by simp
next
  case Empty
  show ?case by (simp add: reach_eps)
next
  case (Seq r1 r2)
  then show ?case by (simp add: reach_conc)
next
  case (Alt r1 r2)
  then show ?case by (simp add: reach_Un)
next
  case (Rep lo hi r)
  then show ?case by (simp add: iter_reach)
next
  case (Star r)
  then have "set (ms (Star r) st) = reach (pow_range (lang r) 0 (length (snd st))) st"
    by (simp add: iter_reach)
  then show ?case by (simp add: reach_star)
qed simp_all

lemma test_Bol: "test (Seq Bol r) s = (ms r (None, s) \<noteq> [])"
proof -
  have "\<And>i. i \<noteq> 0 \<Longrightarrow> ms (Seq Bol r) (state_at s i) = []"
    by (simp add: state_at_def)
  moreover have "ms (Seq Bol r) (state_at s 0) = ms r (None, s)"
    by (simp add: state_at_def)
  ultimately show ?thesis
    unfolding test_def list_ex_iff
    by (metis atLeastLessThan_iff set_upt zero_less_Suc zero_le)
qed

lemma test_anchored:
  assumes "plain r"
  shows "test (Seq Bol (Seq r Eol)) s = (s \<in> lang r)"
proof -
  have "set (ms (Seq r Eol) (None, s)) = {st \<in> reach (lang r) (None, s). snd st = []}"
    by (auto simp: ms_lang [OF assms])
  also have "\<dots> = (if s \<in> lang r then {(lastc None s, [])} else {})"
    by (auto simp: reach_def)
  finally have "(ms (Seq r Eol) (None, s) \<noteq> []) = (s \<in> lang r)"
    by (metis empty_iff insert_not_empty set_empty)
  then show ?thesis by (simp only: test_Bol)
qed

subsection \<open>Membership in a language\<close>

lemma lang_One: "lang (One a) = chars (atom_ok a)"
  by (simp add: chars_def)

lemma lang_Cls: "lang (Cls as) = chars (\<lambda>x. list_ex (\<lambda>a. atom_ok a x) as)"
  by (simp add: chars_def list_ex_iff)

lemma in_chars: "w \<in> chars P \<longleftrightarrow> (\<exists>x. w = [x] \<and> P x)"
  by (auto simp: chars_def)

lemma in_conc_chars: "w \<in> conc (chars P) B \<longleftrightarrow> (\<exists>x v. w = x # v \<and> P x \<and> v \<in> B)"
proof
  assume "w \<in> conc (chars P) B"
  then obtain x v where "w = [x] @ v" "P x" "v \<in> B"
    unfolding conc_def chars_def by blast
  then show "\<exists>x v. w = x # v \<and> P x \<and> v \<in> B" by simp
next
  assume "\<exists>x v. w = x # v \<and> P x \<and> v \<in> B"
  then obtain x v where "w = [x] @ v" "[x] \<in> chars P" "v \<in> B"
    unfolding chars_def by auto
  then show "w \<in> conc (chars P) B"
    unfolding conc_def by blast
qed

lemma conc_assoc: "conc (conc A B) C = conc A (conc B C)"
proof (rule set_eqI)
  fix w
  show "w \<in> conc (conc A B) C \<longleftrightarrow> w \<in> conc A (conc B C)"
  proof
    assume "w \<in> conc (conc A B) C"
    then obtain a b c where "w = (a @ b) @ c" "a \<in> A" "b \<in> B" "c \<in> C"
      unfolding conc_def by blast
    then have "w = a @ (b @ c)" "a \<in> A" "b @ c \<in> conc B C"
      unfolding conc_def by auto
    then show "w \<in> conc A (conc B C)"
      unfolding conc_def [of A] by blast
  next
    assume "w \<in> conc A (conc B C)"
    then obtain a b c where "w = a @ (b @ c)" "a \<in> A" "b \<in> B" "c \<in> C"
      unfolding conc_def by blast
    then have "w = (a @ b) @ c" "a @ b \<in> conc A B" "c \<in> C"
      unfolding conc_def by auto
    then show "w \<in> conc (conc A B) C"
      unfolding conc_def [of "conc A B"] by blast
  qed
qed

lemma conc_Un_left: "conc (A \<union> B) C = conc A C \<union> conc B C"
  unfolding conc_def by blast

lemma conc_eps_left: "conc {[]} B = B"
  unfolding conc_def by simp

lemma conc_eps_right: "conc A {[]} = A"
  unfolding conc_def by simp

lemma conc_empty_left: "conc {} B = {}"
  unfolding conc_def by simp

lemma conc_insert_eps: "conc (insert [] A) B = B \<union> conc A B"
  unfolding conc_def by auto

lemma chars_False: "chars (\<lambda>x. False) = {}"
  by (simp add: chars_def)

lemma pow_range_0_1: "pow_range A 0 (Suc 0) = {[]} \<union> A"
  using pow_range_Suc [of A 0 0] by (simp add: pow_range_0 conc_eps_right)

lemma lang_Opt: "lang (Opt r) = {[]} \<union> lang r"
  by (simp add: Opt_def pow_range_0_1)

lemmas lang_norm = lang_One lang_Cls lang_Opt conc_assoc conc_Un_left conc_eps_left conc_insert_eps
  conc_empty_left chars_False in_chars in_conc_chars lit_def rng_def

subsection \<open>The octets\<close>

lemma list_len_cases:
  obtains "w = []" | a where "w = [a]" | a b where "w = [a, b]" | a b c where "w = [a, b, c]"
    | a b c d r where "w = a # b # c # d # r"
proof (cases w)
  case Nil
  then show ?thesis using that by blast
next
  case (Cons a w1)
  note w = this
  show ?thesis
  proof (cases w1)
    case Nil
    with w show ?thesis using that by blast
  next
    case (Cons b w2)
    note w1 = this
    show ?thesis
    proof (cases w2)
      case Nil
      with w w1 show ?thesis using that by blast
    next
      case (Cons c w3)
      with w w1 show ?thesis using that by (cases w3) auto
    qed
  qed
qed

lemma lang_octet4: "w \<in> lang octet4 \<longleftrightarrow> octet_shape w"
  unfolding octet4_def octet_shape_def
  by (cases w rule: list_len_cases)
    (auto simp add: lang_norm simp del: lang.simps(1) lang.simps(2))

lemma lang_octet6: "w \<in> lang octet6 \<longleftrightarrow> octet_shape w"
  unfolding octet6_def octet_shape_def
  by (cases w rule: list_len_cases)
    (auto simp add: lang_norm simp del: lang.simps(1) lang.simps(2))

lemma octet_shape_text: "octet_shape w \<longleftrightarrow> octet_text w"
proof (cases w rule: list_len_cases)
  case 1
  then show ?thesis by (simp add: octet_shape_def octet_text_def)
next
  case (2 a)
  then show ?thesis
    by (auto simp: octet_shape_def octet_text_def decimal_value_def is_digit_def)
next
  case (3 a b)
  then show ?thesis
    by (auto simp: octet_shape_def octet_text_def decimal_value_def is_digit_def)
next
  case (4 a b c)
  then show ?thesis
    unfolding octet_shape_def octet_text_def decimal_value_def is_digit_def
    by simp arith
next
  case (5 a b c d r)
  then show ?thesis by (simp add: octet_shape_def octet_text_def)
qed

subsection \<open>The IPv4 expression\<close>

text \<open>
  One round of the group \<^verbatim>\<open>(octet)\.?\b\<close> reads an octet and then either stops before a
  code unit that is no word character (or at the end), or reads a full stop that a word
  character follows. Four rounds that end at the end of the input read a dotted quad.
\<close>

lemma iter_exact: "set (iter f n n st) = steps f n st"
  by (induction n arbitrary: st) simp_all

lemma octet_shape_word:
  assumes "octet_shape w"
  shows "w \<noteq> []" and "is_word (last w)" and "is_word (hd w)"
  using assms unfolding octet_shape_def is_word_def by auto

lemma group4_step:
  "set (ms group4 (p, s)) =
     {(Some (last w), s') | w s'. s = w @ s' \<and> octet_shape w \<and> \<not> starts_word s'}
   \<union> {(Some 46, s') | w s'. s = w @ 46 # s' \<and> octet_shape w \<and> starts_word s'}"
proof -
  have plain: "plain (Seq octet4 (Opt (lit CHR ''.'')))"
    by (simp add: octet4_def Opt_def lit_def)
  have "lang octet4 = {w. octet_shape w}"
    using lang_octet4 by blast
  then have l: "lang (Seq octet4 (Opt (lit CHR ''.''))) = conc {w. octet_shape w} {[], [46]}"
    by (simp add: lang_Opt lit_def insert_commute)
  have "set (ms group4 (p, s))
      = {st \<in> set (ms (Seq octet4 (Opt (lit CHR ''.''))) (p, s)). at_boundary st}"
    by (auto simp: group4_def)
  also have "\<dots> = {st \<in> reach (conc {w. octet_shape w} {[], [46]}) (p, s). at_boundary st}"
    by (simp only: ms_lang [OF plain] l)
  also have "\<dots> = {(Some (last w), s') | w s'. s = w @ s' \<and> octet_shape w \<and> \<not> starts_word s'}
   \<union> {(Some 46, s') | w s'. s = w @ 46 # s' \<and> octet_shape w \<and> starts_word s'}"
  proof (rule set_eqI)
    fix st
    show "st \<in> {st \<in> reach (conc {w. octet_shape w} {[], [46]}) (p, s). at_boundary st}
      \<longleftrightarrow> st \<in> {(Some (last w), s') | w s'. s = w @ s' \<and> octet_shape w \<and> \<not> starts_word s'}
   \<union> {(Some 46, s') | w s'. s = w @ 46 # s' \<and> octet_shape w \<and> starts_word s'}"
    proof
      assume "st \<in> {st \<in> reach (conc {w. octet_shape w} {[], [46]}) (p, s). at_boundary st}"
      then obtain u s' where u: "s = u @ s'" "u \<in> conc {w. octet_shape w} {[], [46]}"
        "st = (lastc p u, s')" "at_boundary st"
        unfolding reach_def by auto
      from u(2) obtain w where w: "octet_shape w" "u = w \<or> u = w @ [46]"
        unfolding conc_def by auto
      from w(2) show "st \<in> {(Some (last w), s') | w s'. s = w @ s' \<and> octet_shape w \<and> \<not> starts_word s'}
   \<union> {(Some 46, s') | w s'. s = w @ 46 # s' \<and> octet_shape w \<and> starts_word s'}"
      proof
        assume "u = w"
        with u w octet_shape_word [OF w(1)]
        have "st = (Some (last w), s')" "s = w @ s'" "\<not> starts_word s'"
          by (auto simp: lastc_def at_boundary_def starts_word_def split: list.splits)
        with w(1) show ?thesis by blast
      next
        assume "u = w @ [46]"
        with u w
        have "st = (Some 46, s')" "s = w @ 46 # s'" "starts_word s'"
          by (auto simp: lastc_def at_boundary_def starts_word_def is_word_def split: list.splits)
        with w(1) show ?thesis by blast
      qed
    next
      assume "st \<in> {(Some (last w), s') | w s'. s = w @ s' \<and> octet_shape w \<and> \<not> starts_word s'}
   \<union> {(Some 46, s') | w s'. s = w @ 46 # s' \<and> octet_shape w \<and> starts_word s'}"
      then consider w s' where "st = (Some (last w), s')" "s = w @ s'" "octet_shape w" "\<not> starts_word s'"
        | w s' where "st = (Some 46, s')" "s = w @ 46 # s'" "octet_shape w" "starts_word s'"
        by blast
      then show "st \<in> {st \<in> reach (conc {w. octet_shape w} {[], [46]}) (p, s). at_boundary st}"
      proof cases
        case 1
        then have "w \<in> conc {w. octet_shape w} {[], [46]}"
          unfolding conc_def by auto
        moreover have "st = (lastc p w, s')" "at_boundary st"
          using 1 octet_shape_word [OF 1(3)]
          by (auto simp: lastc_def at_boundary_def starts_word_def split: list.splits)
        ultimately show ?thesis
          using 1(2) unfolding reach_def by auto
      next
        case 2
        then have "w @ [46] \<in> conc {w. octet_shape w} {[], [46]}"
          unfolding conc_def by auto
        moreover have "st = (lastc p (w @ [46]), s')" "at_boundary st" "s = (w @ [46]) @ s'"
          using 2 by (auto simp: lastc_def at_boundary_def starts_word_def is_word_def split: list.splits)
        ultimately have "st \<in> reach (conc {w. octet_shape w} {[], [46]}) (p, s)"
          unfolding reach_def by fastforce
        with \<open>at_boundary st\<close> show ?thesis by simp
      qed
    qed
  qed
  finally show ?thesis .
qed

lemma group4_needs_word:
  assumes "st' \<in> set (ms group4 (p, s))"
  shows "starts_word s"
proof -
  from assms obtain w r where "s = w @ r" "octet_shape w"
    unfolding group4_step by blast
  with octet_shape_word [of w] show ?thesis
    by (cases w) (auto simp: starts_word_def)
qed

lemma group4_dot:
  assumes "st' \<in> set (ms group4 (p, s))" and "starts_word (snd st')"
  shows "\<exists>w. octet_shape w \<and> s = w @ 46 # snd st'"
  using assms unfolding group4_step by auto

lemma group4_end:
  assumes "st' \<in> set (ms group4 (p, s))" and "snd st' = []"
  shows "octet_shape s"
  using assms unfolding group4_step by (auto simp: starts_word_def)

lemma group4_dot_intro:
  assumes "octet_shape w" and "starts_word r"
  shows "(Some 46, r) \<in> set (ms group4 (p, w @ 46 # r))"
  using assms unfolding group4_step by blast

lemma group4_end_intro:
  assumes "octet_shape w"
  shows "(Some (last w), []) \<in> set (ms group4 (p, w))"
  using assms unfolding group4_step by (auto simp: starts_word_def)

lemma test_ipv4: "test ipv4Regex s = dotted_quad s"
proof -
  have "test ipv4Regex s = (\<exists>st\<in>steps (ms group4) 4 (None, s). snd st = [])"
  proof -
    have "test ipv4Regex s = (ms (Seq (Rep 4 4 group4) Eol) (None, s) \<noteq> [])"
      unfolding ipv4Regex_def anchored_def group4_def by (rule test_Bol)
    also have "\<dots> = (\<exists>st\<in>set (iter (ms group4) 4 4 (None, s)). snd st = [])"
      by (auto simp: concat_eq_Nil_conv)
    finally show ?thesis by (simp only: iter_exact)
  qed
  also have "\<dots> = (\<exists>st1\<in>set (ms group4 (None, s)). \<exists>st2\<in>set (ms group4 st1).
       \<exists>st3\<in>set (ms group4 st2). \<exists>st4\<in>set (ms group4 st3). snd st4 = [])"
    by (simp add: eval_nat_numeral)
  also have "\<dots> = dotted_quad s"
  proof
    assume "\<exists>st1\<in>set (ms group4 (None, s)). \<exists>st2\<in>set (ms group4 st1).
       \<exists>st3\<in>set (ms group4 st2). \<exists>st4\<in>set (ms group4 st3). snd st4 = []"
    then obtain p1 s1 p2 s2 p3 s3 st4 where
      1: "(p1, s1) \<in> set (ms group4 (None, s))" and 2: "(p2, s2) \<in> set (ms group4 (p1, s1))"
      and 3: "(p3, s3) \<in> set (ms group4 (p2, s2))" and 4: "st4 \<in> set (ms group4 (p3, s3))"
      and e: "snd st4 = []"
      by force
    from group4_end [OF 4 e] have d: "octet_shape s3" .
    from group4_dot [OF 3] group4_needs_word [OF 4]
    obtain c where c: "octet_shape c" "s2 = c @ 46 # s3" by auto
    from group4_dot [OF 2] group4_needs_word [OF 3]
    obtain b where b: "octet_shape b" "s1 = b @ 46 # s2" by auto
    from group4_dot [OF 1] group4_needs_word [OF 2]
    obtain a where a: "octet_shape a" "s = a @ 46 # s1" by auto
    from a b c d show "dotted_quad s"
      unfolding dotted_quad_def octet_shape_text by auto
  next
    assume "dotted_quad s"
    then obtain a b c d where o: "octet_shape a" "octet_shape b" "octet_shape c" "octet_shape d"
      and s: "s = a @ 46 # b @ 46 # c @ 46 # d"
      unfolding dotted_quad_def octet_shape_text by blast
    have w: "starts_word (b @ 46 # c @ 46 # d)" "starts_word (c @ 46 # d)" "starts_word d"
      using octet_shape_word [OF o(2)] octet_shape_word [OF o(3)] octet_shape_word [OF o(4)]
      by (cases b; cases c; cases d; simp add: starts_word_def)+
    have "(Some 46, b @ 46 # c @ 46 # d) \<in> set (ms group4 (None, s))"
      unfolding s using o(1) w(1) by (rule group4_dot_intro)
    moreover have "(Some 46, c @ 46 # d) \<in> set (ms group4 (Some 46, b @ 46 # c @ 46 # d))"
      using o(2) w(2) by (rule group4_dot_intro)
    moreover have "(Some 46, d) \<in> set (ms group4 (Some 46, c @ 46 # d))"
      using o(3) w(3) by (rule group4_dot_intro)
    moreover have "(Some (last d), []) \<in> set (ms group4 (Some 46, d))"
      using o(4) by (rule group4_end_intro)
    ultimately show "\<exists>st1\<in>set (ms group4 (None, s)). \<exists>st2\<in>set (ms group4 st1).
       \<exists>st3\<in>set (ms group4 st2). \<exists>st4\<in>set (ms group4 st3). snd st4 = []"
      by force
  qed
  finally show ?thesis .
qed

subsection \<open>The parts of the IPv6 expression\<close>

lemma pow_chars: "pow (chars P) k = {w. length w = k \<and> list_all P w}"
proof (induction k)
  case 0
  show ?case by auto
next
  case (Suc k)
  show ?case
  proof (rule set_eqI)
    fix w
    show "w \<in> pow (chars P) (Suc k) \<longleftrightarrow> w \<in> {w. length w = Suc k \<and> list_all P w}"
      by (cases w) (auto simp: in_conc_chars Suc.IH)
  qed
qed

lemma pow_range_chars: "pow_range (chars P) a b = {w. a \<le> length w \<and> length w \<le> b \<and> list_all P w}"
  unfolding pow_range_def pow_chars by auto

lemma lang_hexdig: "lang hexdig = chars is_hex"
proof -
  have "(\<lambda>x. list_ex (\<lambda>a. atom_ok a x)
          [rng CHR ''0'' CHR ''9'', rng CHR ''A'' CHR ''F'', rng CHR ''a'' CHR ''f'']) = is_hex"
    by (rule ext) (simp add: rng_def is_hex_def)
  then show ?thesis
    unfolding hexdig_def lang_Cls by simp
qed

lemma lang_H4: "lang H4 = {w. hextet w}"
  unfolding H4_def by (simp add: lang_hexdig pow_range_chars hextet_def)

lemma pow_image:
  "pow {f h | h. P h} n = {concat (map f L) | L. length L = n \<and> list_all P L}"
proof (induction n)
  case 0
  show ?case by auto
next
  case (Suc n)
  show ?case
  proof (rule set_eqI)
    fix w
    show "w \<in> pow {f h | h. P h} (Suc n)
       \<longleftrightarrow> w \<in> {concat (map f L) | L. length L = Suc n \<and> list_all P L}"
    proof
      assume "w \<in> pow {f h | h. P h} (Suc n)"
      then obtain h L where "w = f h @ concat (map f L)" "P h" "length L = n" "list_all P L"
        unfolding pow.simps Suc.IH conc_def by blast
      then have "w = concat (map f (h # L))" "length (h # L) = Suc n" "list_all P (h # L)"
        by simp_all
      then show "w \<in> {concat (map f L) | L. length L = Suc n \<and> list_all P L}"
        by blast
    next
      assume "w \<in> {concat (map f L) | L. length L = Suc n \<and> list_all P L}"
      then obtain L where L: "w = concat (map f L)" "length L = Suc n" "list_all P L"
        by blast
      then obtain h L' where "L = h # L'" by (cases L) auto
      with L have "w = f h @ concat (map f L')" "P h" "length L' = n" "list_all P L'"
        by simp_all
      then show "w \<in> pow {f h | h. P h} (Suc n)"
        unfolding pow.simps Suc.IH conc_def by blast
    qed
  qed
qed

lemma lang_HC: "lang HC = {h @ [58] | h. hextet h}"
  unfolding HC_def by (auto simp: lang_H4 lit_def conc_def)

lemma lang_CH: "lang CH = {58 # h | h. hextet h}"
  unfolding CH_def by (auto simp: lang_H4 lit_def conc_def)

lemma lang_pre: "lang (Rep n n HC) = {pre L | L. length L = n \<and> list_all hextet L}"
  by (simp add: pow_range_def lang_HC pow_image pre_def)

lemma lang_suf:
  "lang (Rep a b CH) = {suf R | R. a \<le> length R \<and> length R \<le> b \<and> list_all hextet R}"
  by (auto simp add: pow_range_def lang_CH pow_image suf_def)

lemma lang_quad6: "lang quad6 = V4"
proof -
  have o: "lang octet6 = {w. octet_text w}"
    using lang_octet6 octet_shape_text by blast
  have d: "lang (Seq (lit CHR ''.'') octet6) = {46 # w | w. octet_text w}"
    by (auto simp: o lit_def conc_def)
  have "lang (Rep 3 3 (Seq (lit CHR ''.'') octet6)) = pow (lang (Seq (lit CHR ''.'') octet6)) 3"
    by (simp add: pow_range_def)
  also have "\<dots> = {concat (map (\<lambda>w. 46 # w) L) | L. length L = 3 \<and> list_all octet_text L}"
    unfolding d by (rule pow_image)
  also have "\<dots> = {46 # b @ 46 # c @ 46 # d | b c d. octet_text b \<and> octet_text c \<and> octet_text d}"
  proof (rule set_eqI)
    fix w
    show "w \<in> {concat (map (\<lambda>w. 46 # w) L) | L. length L = 3 \<and> list_all octet_text L}
      \<longleftrightarrow> w \<in> {46 # b @ 46 # c @ 46 # d | b c d. octet_text b \<and> octet_text c \<and> octet_text d}"
    proof
      assume "w \<in> {concat (map (\<lambda>w. 46 # w) L) | L. length L = 3 \<and> list_all octet_text L}"
      then obtain L where L: "w = concat (map (\<lambda>w. 46 # w) L)" "length L = 3" "list_all octet_text L"
        by blast
      then obtain b c d where "L = [b, c, d]"
        by (cases L rule: list_len_cases) auto
      with L show "w \<in> {46 # b @ 46 # c @ 46 # d | b c d. octet_text b \<and> octet_text c \<and> octet_text d}"
        by auto
    next
      assume "w \<in> {46 # b @ 46 # c @ 46 # d | b c d. octet_text b \<and> octet_text c \<and> octet_text d}"
      then obtain b c d where "w = concat (map (\<lambda>w. 46 # w) [b, c, d])" "length [b, c, d] = 3"
        "list_all octet_text [b, c, d]"
        by auto
      then show "w \<in> {concat (map (\<lambda>w. 46 # w) L) | L. length L = 3 \<and> list_all octet_text L}"
        by blast
    qed
  qed
  finally have r: "lang (Rep 3 3 (Seq (lit CHR ''.'') octet6))
      = {46 # b @ 46 # c @ 46 # d | b c d. octet_text b \<and> octet_text c \<and> octet_text d}" .
  show ?thesis
    unfolding quad6_def V4_def dotted_quad_def lang.simps(4) r o conc_def
    by (rule set_eqI) (simp, blast)
qed

subsection \<open>The eight alternatives of the IPv6 expression\<close>

lemma lang_lit: "lang (lit c) = {[of_char c]}"
  by (simp add: lit_def)

lemma lang_tail6:
  "lang (tail6 hi1 hi2) =
     {trail R | R. length R \<le> hi1 \<and> list_all hextet R}
     \<union> {suf R @ 58 # q | R q. length R \<le> hi2 \<and> list_all hextet R \<and> dotted_quad q}"
proof -
  have 1: "lang (Rep 1 hi1 CH) \<union> {[58]} = {trail R | R. length R \<le> hi1 \<and> list_all hextet R}"
  proof (rule set_eqI)
    fix w
    show "w \<in> lang (Rep 1 hi1 CH) \<union> {[58]} \<longleftrightarrow> w \<in> {trail R | R. length R \<le> hi1 \<and> list_all hextet R}"
    proof
      assume "w \<in> lang (Rep 1 hi1 CH) \<union> {[58]}"
      then consider R where "w = suf R" "1 \<le> length R" "length R \<le> hi1" "list_all hextet R"
        | "w = [58]"
        unfolding lang_suf by blast
      then show "w \<in> {trail R | R. length R \<le> hi1 \<and> list_all hextet R}"
      proof cases
        case 1
        then have "w = trail R" by (auto simp: trail_def)
        with 1 show ?thesis by blast
      next
        case 2
        then have "w = trail []" "length ([] :: cu list list) \<le> hi1" "list_all hextet []"
          by (simp_all add: trail_def)
        then show ?thesis by blast
      qed
    next
      assume "w \<in> {trail R | R. length R \<le> hi1 \<and> list_all hextet R}"
      then obtain R where R: "w = trail R" "length R \<le> hi1" "list_all hextet R" by blast
      show "w \<in> lang (Rep 1 hi1 CH) \<union> {[58]}"
      proof (cases "R = []")
        case True
        with R show ?thesis by (simp add: trail_def)
      next
        case False
        then have "w = suf R" "1 \<le> length R" using R by (auto simp: trail_def Suc_le_eq)
        with R show ?thesis unfolding lang_suf by blast
      qed
    qed
  qed
  have 2: "lang (cat [Rep 0 hi2 CH, lit CHR '':'', quad6])
      = {suf R @ 58 # q | R q. length R \<le> hi2 \<and> list_all hextet R \<and> dotted_quad q}"
  proof -
    have "lang (cat [Rep 0 hi2 CH, lit CHR '':'', quad6])
        = conc (lang (Rep 0 hi2 CH)) (conc {[58]} V4)"
      by (simp add: lang_lit lang_quad6 del: lang.simps(6))
    also have "\<dots> = {suf R @ 58 # q | R q. length R \<le> hi2 \<and> list_all hextet R \<and> dotted_quad q}"
      unfolding lang_suf conc_def V4_def by (rule set_eqI) (simp, blast)
    finally show ?thesis .
  qed
  have "lang (tail6 hi1 hi2)
      = (lang (Rep 1 hi1 CH) \<union> {[58]}) \<union> lang (cat [Rep 0 hi2 CH, lit CHR '':'', quad6])"
    unfolding tail6_def by (simp add: lang_lit Un_ac del: lang.simps(6) cat.simps)
  then show ?thesis by (simp only: 1 2)
qed

lemma lang_branch:
  assumes "1 \<le> n" and "n + hi1 = 7" and "n + hi2 = 5"
  shows "lang (Seq (Rep n n HC) (tail6 hi1 hi2)) = COMPn n \<union> COMP4n n"
proof (rule set_eqI)
  fix w
  have ne: "\<And>L :: cu list list. length L = n \<Longrightarrow> lead L = pre L"
    using assms(1) by (auto simp: lead_def)
  show "w \<in> lang (Seq (Rep n n HC) (tail6 hi1 hi2)) \<longleftrightarrow> w \<in> COMPn n \<union> COMP4n n"
  proof
    assume "w \<in> lang (Seq (Rep n n HC) (tail6 hi1 hi2))"
    then obtain L t where L: "w = pre L @ t" "length L = n" "list_all hextet L"
      and t: "t \<in> lang (tail6 hi1 hi2)"
      unfolding lang.simps(4) lang_pre conc_def by blast
    from t consider R where "t = trail R" "length R \<le> hi1" "list_all hextet R"
      | R q where "t = suf R @ 58 # q" "length R \<le> hi2" "list_all hextet R" "dotted_quad q"
      unfolding lang_tail6 by blast
    then show "w \<in> COMPn n \<union> COMP4n n"
    proof cases
      case 1
      then have "w = lead L @ trail R" "length L + length R \<le> 7"
        using L assms ne by auto
      with L 1 have "w \<in> COMPn n" unfolding COMPn_def by blast
      then show ?thesis ..
    next
      case 2
      then have "w = lead L @ suf R @ 58 # q" "length L + length R \<le> 5"
        using L assms ne by auto
      with L 2 have "w \<in> COMP4n n" unfolding COMP4n_def by blast
      then show ?thesis ..
    qed
  next
    assume "w \<in> COMPn n \<union> COMP4n n"
    then consider L R where "w = lead L @ trail R" "length L = n" "length L + length R \<le> 7"
        "list_all hextet L" "list_all hextet R"
      | L R q where "w = lead L @ suf R @ 58 # q" "length L = n" "length L + length R \<le> 5"
        "list_all hextet L" "list_all hextet R" "dotted_quad q"
      unfolding COMPn_def COMP4n_def by blast
    then show "w \<in> lang (Seq (Rep n n HC) (tail6 hi1 hi2))"
    proof cases
      case 1
      then have "length R \<le> hi1" using assms by simp
      with 1 have "trail R \<in> lang (tail6 hi1 hi2)" unfolding lang_tail6 by blast
      moreover have "pre L \<in> lang (Rep n n HC)" unfolding lang_pre using 1 by blast
      moreover have "w = pre L @ trail R" using 1 ne by simp
      ultimately show ?thesis unfolding lang.simps(4) conc_def by blast
    next
      case 2
      then have "length R \<le> hi2" using assms by simp
      with 2 have "suf R @ 58 # q \<in> lang (tail6 hi1 hi2)" unfolding lang_tail6 by blast
      moreover have "pre L \<in> lang (Rep n n HC)" unfolding lang_pre using 2 by blast
      moreover have "w = pre L @ suf R @ 58 # q" using 2 ne by simp
      ultimately show ?thesis unfolding lang.simps(4) conc_def by blast
    qed
  qed
qed

lemma lang_b4: "lang b4 = COMPn 4 \<union> COMP4n 4"
proof -
  have "b4 = Seq (Rep 4 4 HC) (tail6 3 1)" by (simp add: b4_def tail6_def Opt_def)
  moreover have "lang (Seq (Rep 4 4 HC) (tail6 3 1)) = COMPn 4 \<union> COMP4n 4"
    by (rule lang_branch) simp_all
  ultimately show ?thesis by (simp only:)
qed

lemma lang_b3: "lang b3 = COMPn 3 \<union> COMP4n 3"
proof -
  have "b3 = Seq (Rep 3 3 HC) (tail6 4 2)" by (simp add: b3_def tail6_def)
  moreover have "lang (Seq (Rep 3 3 HC) (tail6 4 2)) = COMPn 3 \<union> COMP4n 3"
    by (rule lang_branch) simp_all
  ultimately show ?thesis by (simp only:)
qed

lemma lang_b2: "lang b2 = COMPn 2 \<union> COMP4n 2"
proof -
  have "b2 = Seq (Rep 2 2 HC) (tail6 5 3)" by (simp add: b2_def tail6_def)
  moreover have "lang (Seq (Rep 2 2 HC) (tail6 5 3)) = COMPn 2 \<union> COMP4n 2"
    by (rule lang_branch) simp_all
  ultimately show ?thesis by (simp only:)
qed

lemma lang_b1: "lang b1 = COMPn 1 \<union> COMP4n 1"
proof -
  have "b1 = Seq (Rep 1 1 HC) (tail6 6 4)" by (simp add: b1_def tail6_def)
  moreover have "lang (Seq (Rep 1 1 HC) (tail6 6 4)) = COMPn 1 \<union> COMP4n 1"
    by (rule lang_branch) simp_all
  ultimately show ?thesis by (simp only:)
qed

lemma lang_b0: "lang b0 = COMPn 0 \<union> COMP4n 0"
proof -
  have e: "b0 = Seq (lit CHR '':'') (tail6 7 5)" by (simp add: b0_def tail6_def)
  have c: "lang (lit CHR '':'') = {[58]}" by (simp add: lang_lit)
  have "lang b0 = conc {[58]} (lang (tail6 7 5))"
    unfolding e lang.simps(4) c ..
  also have "\<dots> = COMPn 0 \<union> COMP4n 0"
    unfolding lang_tail6 conc_def COMPn_def COMP4n_def
    by (rule set_eqI) (simp add: lead_def, blast)
  finally show ?thesis .
qed

lemma lang_b5: "lang b5 = COMPn 5 \<union> COMP4n 5"
proof -
  have t: "lang (alts [Rep 1 2 CH, Seq (lit CHR '':'') quad6, lit CHR '':''])
      = lang (tail6 2 0)"
  proof -
    have "lang (Rep 0 0 CH) = {[]}" by (simp add: pow_range_0)
    then have "lang (cat [Rep 0 0 CH, lit CHR '':'', quad6]) = lang (Seq (lit CHR '':'') quad6)"
      by (simp add: conc_eps_left del: lang.simps(6))
    then show ?thesis
      unfolding tail6_def by (simp del: lang.simps(6) cat.simps)
  qed
  have "lang b5 = lang (Seq (Rep 5 5 HC) (tail6 2 0))"
    unfolding b5_def lang.simps(4) t ..
  moreover have "lang (Seq (Rep 5 5 HC) (tail6 2 0)) = COMPn 5 \<union> COMP4n 5"
    by (rule lang_branch) simp_all
  ultimately show ?thesis by (simp only:)
qed

lemma lang_b6: "lang b6 = COMPn 6 \<union> FULL4"
proof (rule set_eqI)
  fix w
  have tl: "lang (alts [CH, quad6, lit CHR '':'']) = {58 # h | h. hextet h} \<union> V4 \<union> {[58]}"
    by (simp add: lang_CH lang_quad6 lang_lit Un_ac)
  have lead6: "\<And>L :: cu list list. length L = 6 \<Longrightarrow> lead L = pre L"
    by (auto simp: lead_def)
  show "w \<in> lang b6 \<longleftrightarrow> w \<in> COMPn 6 \<union> FULL4"
  proof
    assume "w \<in> lang b6"
    then obtain L t where L: "w = pre L @ t" "length L = 6" "list_all hextet L"
      and t: "t \<in> {58 # h | h. hextet h} \<union> V4 \<union> {[58]}"
      unfolding b6_def lang.simps(4) lang_pre tl conc_def by blast
    from t consider h where "t = 58 # h" "hextet h" | "dotted_quad t" | "t = [58]"
      unfolding V4_def by blast
    then show "w \<in> COMPn 6 \<union> FULL4"
    proof cases
      case 1
      then have "w = lead L @ trail [h]" "length L + length [h] \<le> 7" "list_all hextet [h]"
        using L lead6 by (simp_all add: trail_def suf_def)
      with L have "w \<in> COMPn 6" unfolding COMPn_def by blast
      then show ?thesis ..
    next
      case 2
      with L have "w \<in> FULL4" unfolding FULL4_def by blast
      then show ?thesis ..
    next
      case 3
      then have "w = lead L @ trail []" "length L + length ([] :: cu list list) \<le> 7" "list_all hextet []"
        using L lead6 by (simp_all add: trail_def)
      with L have "w \<in> COMPn 6" unfolding COMPn_def by blast
      then show ?thesis ..
    qed
  next
    assume "w \<in> COMPn 6 \<union> FULL4"
    then consider L R where "w = lead L @ trail R" "length L = 6" "length L + length R \<le> 7"
        "list_all hextet L" "list_all hextet R"
      | L q where "w = pre L @ q" "length L = 6" "list_all hextet L" "dotted_quad q"
      unfolding COMPn_def FULL4_def by blast
    then show "w \<in> lang b6"
    proof cases
      case 1
      then have "length R \<le> 1" by simp
      then have "R = [] \<or> (\<exists>h. R = [h])"
        by (cases R rule: list_len_cases) auto
      then have "trail R \<in> {58 # h | h. hextet h} \<union> V4 \<union> {[58]}"
        using 1(5) by (auto simp: trail_def suf_def)
      moreover have "pre L \<in> lang (Rep 6 6 HC)" unfolding lang_pre using 1 by blast
      moreover have "w = pre L @ trail R" using 1 lead6 by simp
      ultimately show ?thesis unfolding b6_def lang.simps(4) tl conc_def by blast
    next
      case 2
      then have "q \<in> {58 # h | h. hextet h} \<union> V4 \<union> {[58]}" by (simp add: V4_def)
      moreover have "pre L \<in> lang (Rep 6 6 HC)" unfolding lang_pre using 2 by blast
      ultimately show ?thesis unfolding b6_def lang.simps(4) tl conc_def using 2(1) by blast
    qed
  qed
qed

lemma lang_b7: "lang b7 = FULL \<union> COMPn 7"
proof (rule set_eqI)
  fix w
  have tl: "lang (Alt H4 (lit CHR '':'')) = {h. hextet h} \<union> {[58]}"
    by (simp add: lang_H4 lang_lit)
  have lead7: "\<And>L :: cu list list. length L = 7 \<Longrightarrow> lead L = pre L"
    by (auto simp: lead_def)
  show "w \<in> lang b7 \<longleftrightarrow> w \<in> FULL \<union> COMPn 7"
  proof
    assume "w \<in> lang b7"
    then obtain L t where L: "w = pre L @ t" "length L = 7" "list_all hextet L"
      and t: "hextet t \<or> t = [58]"
      unfolding b7_def lang.simps(4) lang_pre tl conc_def by blast
    from t show "w \<in> FULL \<union> COMPn 7"
    proof
      assume "hextet t"
      with L have "w \<in> FULL" unfolding FULL_def by blast
      then show ?thesis ..
    next
      assume "t = [58]"
      then have "w = lead L @ trail []" "length L + length ([] :: cu list list) \<le> 7" "list_all hextet []"
        using L lead7 by (simp_all add: trail_def)
      with L have "w \<in> COMPn 7" unfolding COMPn_def by blast
      then show ?thesis ..
    qed
  next
    assume "w \<in> FULL \<union> COMPn 7"
    then consider L h where "w = pre L @ h" "length L = 7" "list_all hextet L" "hextet h"
      | L R where "w = lead L @ trail R" "length L = 7" "length L + length R \<le> 7"
        "list_all hextet L" "list_all hextet R"
      unfolding COMPn_def FULL_def by blast
    then show "w \<in> lang b7"
    proof cases
      case 1
      then have "h \<in> {h. hextet h} \<union> {[58]}" by simp
      moreover have "pre L \<in> lang (Rep 7 7 HC)" unfolding lang_pre using 1 by blast
      ultimately show ?thesis unfolding b7_def lang.simps(4) tl conc_def using 1(1) by blast
    next
      case 2
      then have "R = []" by simp
      then have "trail R \<in> {h. hextet h} \<union> {[58]}" by (simp add: trail_def)
      moreover have "pre L \<in> lang (Rep 7 7 HC)" unfolding lang_pre using 2 by blast
      moreover have "w = pre L @ trail R" using 2 lead7 by simp
      ultimately show ?thesis unfolding b7_def lang.simps(4) tl conc_def by blast
    qed
  qed
qed

lemma lang_addr6:
  "lang addr6 = FULL \<union> FULL4 \<union> (\<Union>n\<in>{0..7}. COMPn n) \<union> (\<Union>n\<in>{0..5}. COMP4n n)"
proof -
  have 7: "{0..7::nat} = {0, 1, 2, 3, 4, 5, 6, 7}" and 5: "{0..5::nat} = {0, 1, 2, 3, 4, 5}"
    by auto
  have "lang addr6 = lang b7 \<union> lang b6 \<union> lang b5 \<union> lang b4 \<union> lang b3 \<union> lang b2 \<union> lang b1 \<union> lang b0"
    by (simp add: addr6_def Un_assoc)
  then show ?thesis
    unfolding lang_b7 lang_b6 lang_b5 lang_b4 lang_b3 lang_b2 lang_b1 lang_b0 7 5
    by (simp add: Un_ac)
qed

subsection \<open>The alternatives and the address forms\<close>

lemma join_Cons: "gs \<noteq> [] \<Longrightarrow> join (g # gs) = g @ 58 # join gs"
  by (cases gs) simp_all

lemma join_snoc: "join (L @ [x]) = pre L @ x"
proof (induction L)
  case Nil
  show ?case by (simp add: pre_def)
next
  case (Cons g L)
  have "join ((g # L) @ [x]) = g @ 58 # join (L @ [x])"
    using join_Cons [of "L @ [x]" g] by simp
  with Cons show ?case by (simp add: pre_def)
qed

lemma pre_join: "L \<noteq> [] \<Longrightarrow> pre L = join L @ [58]"
proof (induction L)
  case Nil
  then show ?case by simp
next
  case (Cons g L)
  show ?case
  proof (cases "L = []")
    case True
    then show ?thesis by (simp add: pre_def)
  next
    case False
    with Cons have "pre L = join L @ [58]" by simp
    moreover have "join (g # L) = g @ 58 # join L" using False by (rule join_Cons)
    moreover have "pre (g # L) = g @ 58 # pre L" by (simp add: pre_def)
    ultimately show ?thesis by simp
  qed
qed

lemma suf_join: "R \<noteq> [] \<Longrightarrow> suf R = 58 # join R"
proof (induction R)
  case Nil
  then show ?case by simp
next
  case (Cons g R)
  show ?case
  proof (cases "R = []")
    case True
    then show ?thesis by (simp add: suf_def)
  next
    case False
    with Cons have "suf R = 58 # join R" by simp
    moreover have "join (g # R) = g @ 58 # join R" using False by (rule join_Cons)
    moreover have "suf (g # R) = 58 # g @ suf R" by (simp add: suf_def)
    ultimately show ?thesis by simp
  qed
qed

lemma suf_pre: "suf R @ [58] = 58 # pre R"
  by (induction R) (simp_all add: suf_def pre_def)

lemma lead_trail: "lead L @ trail R = join L @ [58, 58] @ join R"
  by (cases "L = []"; cases "R = []") (simp_all add: lead_def trail_def pre_join suf_join)

lemma lead_suf_quad: "lead L @ suf R @ 58 # q = join L @ [58, 58] @ join (R @ [q])"
proof -
  have "suf R @ 58 # q = 58 # pre R @ q"
    using suf_pre [of R] by (metis append_Cons append_Nil append_assoc)
  then show ?thesis
    by (cases "L = []") (simp_all add: lead_def pre_join join_snoc)
qed

lemma length8_snoc:
  fixes L :: "'a list"
  assumes "length L = 8"
  obtains L' h where "L = L' @ [h]" "length L' = 7"
proof -
  from assms have "L \<noteq> []" by auto
  then have "L = butlast L @ [last L]" by simp
  moreover have "length (butlast L) = 7" using assms by simp
  ultimately show ?thesis using that by blast
qed

lemma ipv6_address_lang: "ipv6_address a \<longleftrightarrow> a \<in> lang addr6"
proof -
  have full: "(\<exists>L. length L = 8 \<and> list_all hextet L \<and> a = join L) \<longleftrightarrow> a \<in> FULL"
  proof
    assume "\<exists>L. length L = 8 \<and> list_all hextet L \<and> a = join L"
    then obtain L where L: "length L = 8" "list_all hextet L" "a = join L" by blast
    from L(1) obtain L' h where "L = L' @ [h]" "length L' = 7" by (rule length8_snoc)
    with L have "a = pre L' @ h" "length L' = 7" "list_all hextet L'" "hextet h"
      by (simp_all add: join_snoc)
    then show "a \<in> FULL" unfolding FULL_def by blast
  next
    assume "a \<in> FULL"
    then obtain L h where "a = pre L @ h" "length L = 7" "list_all hextet L" "hextet h"
      unfolding FULL_def by blast
    then have "length (L @ [h]) = 8" "list_all hextet (L @ [h])" "a = join (L @ [h])"
      by (simp_all add: join_snoc)
    then show "\<exists>L. length L = 8 \<and> list_all hextet L \<and> a = join L" by blast
  qed
  have full4: "(\<exists>L q. length L = 6 \<and> list_all hextet L \<and> dotted_quad q \<and> a = join (L @ [q]))
      \<longleftrightarrow> a \<in> FULL4"
    unfolding FULL4_def join_snoc by blast
  have comp: "(\<exists>L R. length L + length R \<le> 7 \<and> list_all hextet L \<and> list_all hextet R
            \<and> a = join L @ [58, 58] @ join R) \<longleftrightarrow> a \<in> (\<Union>n\<in>{0..7}. COMPn n)"
  proof
    assume "\<exists>L R. length L + length R \<le> 7 \<and> list_all hextet L \<and> list_all hextet R
            \<and> a = join L @ [58, 58] @ join R"
    then obtain L R where "length L + length R \<le> 7" "list_all hextet L" "list_all hextet R"
      "a = lead L @ trail R"
      unfolding lead_trail by blast
    then have "a \<in> COMPn (length L)" "length L \<in> {0..7}"
      unfolding COMPn_def by auto
    then show "a \<in> (\<Union>n\<in>{0..7}. COMPn n)" by blast
  next
    assume "a \<in> (\<Union>n\<in>{0..7}. COMPn n)"
    then obtain L R where "length L + length R \<le> 7" "list_all hextet L" "list_all hextet R"
      "a = lead L @ trail R"
      unfolding COMPn_def by blast
    then show "\<exists>L R. length L + length R \<le> 7 \<and> list_all hextet L \<and> list_all hextet R
            \<and> a = join L @ [58, 58] @ join R"
      unfolding lead_trail by blast
  qed
  have comp4: "(\<exists>L R q. length L + length R \<le> 5 \<and> list_all hextet L \<and> list_all hextet R
            \<and> dotted_quad q \<and> a = join L @ [58, 58] @ join (R @ [q]))
      \<longleftrightarrow> a \<in> (\<Union>n\<in>{0..5}. COMP4n n)"
  proof
    assume "\<exists>L R q. length L + length R \<le> 5 \<and> list_all hextet L \<and> list_all hextet R
            \<and> dotted_quad q \<and> a = join L @ [58, 58] @ join (R @ [q])"
    then obtain L R q where "length L + length R \<le> 5" "list_all hextet L" "list_all hextet R"
      "dotted_quad q" "a = lead L @ suf R @ 58 # q"
      unfolding lead_suf_quad by blast
    then have "a \<in> COMP4n (length L)" "length L \<in> {0..5}"
      unfolding COMP4n_def by auto
    then show "a \<in> (\<Union>n\<in>{0..5}. COMP4n n)" by blast
  next
    assume "a \<in> (\<Union>n\<in>{0..5}. COMP4n n)"
    then obtain L R q where "length L + length R \<le> 5" "list_all hextet L" "list_all hextet R"
      "dotted_quad q" "a = lead L @ suf R @ 58 # q"
      unfolding COMP4n_def by blast
    then show "\<exists>L R q. length L + length R \<le> 5 \<and> list_all hextet L \<and> list_all hextet R
            \<and> dotted_quad q \<and> a = join L @ [58, 58] @ join (R @ [q])"
      unfolding lead_suf_quad by blast
  qed
  show ?thesis
    unfolding ipv6_address_def full full4 comp comp4 lang_addr6 by blast
qed

subsection \<open>The IPv6 expression\<close>

lemma lang_star_chars: "(\<Union>k. pow (chars P) k) = {w. list_all P w}"
  unfolding pow_chars by auto

lemma lang_Star_One: "lang (Star (One a)) = {w. list_all (atom_ok a) w}"
  by (simp only: lang.simps(7) lang_One lang_star_chars)

lemma lang_zone: "lang (Opt (Seq (lit CHR ''%'') (Plus (One Dot)))) = {z. zone_suffix z}"
proof -
  have dot: "atom_ok Dot = (\<lambda>x. \<not> js_line_terminator x)"
    by (rule ext) simp
  have "lang (Plus (One Dot)) = {t. t \<noteq> [] \<and> list_all (atom_ok Dot) t}"
  proof -
    have "lang (Plus (One Dot)) = conc (chars (atom_ok Dot)) {w. list_all (atom_ok Dot) w}"
      unfolding Plus_def lang.simps(4) lang_Star_One lang_One ..
    also have "\<dots> = {t. t \<noteq> [] \<and> list_all (atom_ok Dot) t}"
    proof (rule set_eqI)
      fix t
      show "t \<in> conc (chars (atom_ok Dot)) {w. list_all (atom_ok Dot) w}
          \<longleftrightarrow> t \<in> {t. t \<noteq> [] \<and> list_all (atom_ok Dot) t}"
        by (cases t) (auto simp: in_conc_chars)
    qed
    finally show ?thesis .
  qed
  then have "lang (Seq (lit CHR ''%'') (Plus (One Dot)))
      = {37 # t | t. t \<noteq> [] \<and> list_all (atom_ok Dot) t}"
    unfolding lang.simps(4) lang_lit conc_def by simp
  then show ?thesis
    unfolding lang_Opt zone_suffix_def dot by auto
qed

lemma plain_addr6: "plain addr6"
  by (simp add: addr6_def b7_def b6_def b5_def b4_def b3_def b2_def b1_def b0_def H4_def HC_def
      CH_def hexdig_def quad6_def octet6_def Opt_def lit_def)

lemma test_ipv6: "test ipv6Regex s = ipv6_text s"
proof -
  have space: "atom_ok Space = js_whitespace"
    by (rule ext) simp
  let ?body = "cat [Star (One Space), addr6, Opt (Seq (lit CHR ''%'') (Plus (One Dot))), Star (One Space)]"
  have "plain ?body"
    by (simp add: plain_addr6 Opt_def Plus_def lit_def)
  then have "test ipv6Regex s = (s \<in> lang ?body)"
    unfolding ipv6Regex_def anchored_def by (rule test_anchored)
  also have "lang ?body = conc {w. list_all js_whitespace w}
      (conc {a. ipv6_address a} (conc {z. zone_suffix z} {w. list_all js_whitespace w}))"
    unfolding cat.simps lang.simps(4) lang_Star_One lang_zone space
    using ipv6_address_lang by auto
  also have "s \<in> \<dots> \<longleftrightarrow> ipv6_text s"
    unfolding conc_def ipv6_text_def by (simp, blast)
  finally show ?thesis .
qed

subsection \<open>The classification\<close>

lemma dotted_quad_has_dot: "dotted_quad s \<Longrightarrow> 46 \<in> set s"
  unfolding dotted_quad_def by auto

lemma code_units: "str ''.:%09AFaf_'' = [46, 58, 37, 48, 57, 65, 70, 97, 102, 95]"
  by (simp add: str_def)

text \<open>
  Claim C8, as amended. \<open>validateIP\<close> classifies every input: an absent or empty input
  is invalid with the reason that an address is required; every dotted quad of four
  octets, each a decimal number from 0 to 255 written without a leading zero, is valid
  with version 4; every IPv6 text (eight groups, six groups and a dotted quad, or a form
  compressed with one \<open>::\<close>, with or without a final dotted quad), optionally followed by a
  zone id and optionally surrounded by white space, is valid with version 6; every other
  string is invalid with the reason that the format is not an address.
\<close>

theorem validateIP_classifies:
  "validateIP ip =
     (case ip of
        None \<Rightarrow> \<lparr>valid = False, version = None, error = Some ''IP address is required''\<rparr>
      | Some s \<Rightarrow>
          if s = [] then \<lparr>valid = False, version = None, error = Some ''IP address is required''\<rparr>
          else if dotted_quad s then \<lparr>valid = True, version = Some 4, error = None\<rparr>
          else if ipv6_text s then \<lparr>valid = True, version = Some 6, error = None\<rparr>
          else \<lparr>valid = False, version = None, error = Some ''Invalid IP address format''\<rparr>)"
  by (cases ip) (simp_all add: validateIP_def test_ipv4 test_ipv6)

theorem validateIP_classifies_witness:
  "validateIP None = \<lparr>valid = False, version = None, error = Some ''IP address is required''\<rparr>
   \<and> validateIP (Some (str ''192.168.1.255'')) = \<lparr>valid = True, version = Some 4, error = None\<rparr>
   \<and> validateIP (Some (str ''::1'')) = \<lparr>valid = True, version = Some 6, error = None\<rparr>
   \<and> validateIP (Some (str ''256.1.1.1''))
       = \<lparr>valid = False, version = None, error = Some ''Invalid IP address format''\<rparr>"
proof -
  have o: "octet_text (str ''192'')" "octet_text (str ''168'')" "octet_text (str ''1'')"
    "octet_text (str ''255'')"
    by (simp_all add: octet_text_def str_def is_digit_def decimal_value_def)
  have "str ''192.168.1.255'' = str ''192'' @ 46 # str ''168'' @ 46 # str ''1'' @ 46 # str ''255''"
    by (simp add: str_def)
  with o have v4: "dotted_quad (str ''192.168.1.255'')"
    unfolding dotted_quad_def by blast
  have n4: "\<not> dotted_quad (str ''::1'')"
    using dotted_quad_has_dot [of "str ''::1''"] by (auto simp: str_def)
  have "list_all hextet [str ''1'']" "list_all hextet []"
    "length ([] :: cu list list) + length [str ''1''] \<le> 7"
    "str ''::1'' = join [] @ [58, 58] @ join [str ''1'']"
    by (simp_all add: hextet_def str_def is_hex_def)
  then have "ipv6_address (str ''::1'')"
    unfolding ipv6_address_def by blast
  moreover have "str ''::1'' = [] @ str ''::1'' @ [] @ []" "zone_suffix []"
    "list_all js_whitespace []"
    by (simp_all add: zone_suffix_def)
  ultimately have v6: "ipv6_text (str ''::1'')"
    unfolding ipv6_text_def by blast
  have "\<not> test ipv4Regex (str ''256.1.1.1'')" and "\<not> test ipv6Regex (str ''256.1.1.1'')"
    by code_simp+
  then have bad: "\<not> dotted_quad (str ''256.1.1.1'')" "\<not> ipv6_text (str ''256.1.1.1'')"
    by (simp_all add: test_ipv4 test_ipv6)
  have ne: "str ''192.168.1.255'' \<noteq> []" "str ''::1'' \<noteq> []" "str ''256.1.1.1'' \<noteq> []"
    by (simp_all add: str_def)
  show ?thesis
    using validateIP_classifies [of None] validateIP_classifies [of "Some (str ''192.168.1.255'')"]
      validateIP_classifies [of "Some (str ''::1'')"]
      validateIP_classifies [of "Some (str ''256.1.1.1'')"] v4 n4 v6 bad ne
    by simp
qed

text \<open>
  Claim C8 as stated fails on both sides. The text \<^verbatim>\<open> ::1\<close>, with a space before the
  address, is no IPv6 form and yet valid with version 6; the dotted quad \<^verbatim>\<open>01.2.3.4\<close>,
  whose four octets are within 0 to 255, is invalid.
\<close>

theorem validateIP_counterexample:
  "validateIP (Some (str '' ::1'')) = \<lparr>valid = True, version = Some 6, error = None\<rparr>
   \<and> validateIP (Some (str ''01.2.3.4''))
       = \<lparr>valid = False, version = None, error = Some ''Invalid IP address format''\<rparr>"
  by code_simp

end
